theory Spec2Isabelle
  imports Complex_Main
begin

section \<open>Numbers, strings and errors\<close>

text \<open>
  The colour utilities of \<^verbatim>\<open>colorUtils.ts\<close> compute with JavaScript numbers, which
  are IEEE 754 binary64 doubles. A number is embedded as the \<^typ>\<open>real\<close> it denotes.
  In the conversions between hex and HSL (\<open>hexToHSL\<close>, \<open>hslToHex\<close>) every arithmetic
  operation of the source is the exact operation followed by \<open>fl\<close>, the rounding to the
  nearest double with ties to even, as IEEE 754 prescribes for \<^verbatim>\<open>+\<close>, \<^verbatim>\<open>-\<close>, \<^verbatim>\<open>*\<close> and
  \<^verbatim>\<open>/\<close>; comparisons, \<^verbatim>\<open>Math.max\<close>, \<^verbatim>\<open>Math.min\<close>, \<^verbatim>\<open>Math.round\<close> and \<^verbatim>\<open>%\<close> are exact
  on doubles. Overflow to an infinity does not arise for the bounded values of these
  functions and is not modelled. The luminance and the contrast ratio use \<^verbatim>\<open>Math.pow\<close>,
  whose result the language leaves to the implementation; they are embedded over exact
  reals, with \<open>powr\<close> for \<^verbatim>\<open>Math.pow\<close>.
  Strings are lists of characters; every character the pattern accepts is an ASCII
  character. A \<^verbatim>\<open>throw new Error(msg)\<close> is the value \<open>Inl (Error msg)\<close> of a sum type, a
  normal return is \<open>Inr\<close>.
\<close>

datatype error = Error string

text \<open>\<^verbatim>\<open>interface HSL { h: number; s: number; l: number }\<close>\<close>

record HSL =
  h :: real
  s :: real
  l :: real

subsection \<open>Doubles\<close>

text \<open>
  \<open>bitlength n\<close> is the number of binary digits of \<open>n\<close>. \<open>denorm\<close> is the reciprocal of
  the least positive double, \<open>2 ^ -1074\<close>. \<open>ulp x\<close> is the distance between the doubles
  around \<open>x\<close>: with \<open>N\<close> the integer part of \<open>\<bar>x\<bar>\<close> in units of \<open>2 ^ -1074\<close>, a number with
  more than 53 binary digits in \<open>N\<close> keeps its leading 53, and a smaller one (a subnormal)
  has the unit \<open>2 ^ -1074\<close> itself. \<open>fl x\<close> is the multiple of \<open>ulp x\<close> nearest to \<open>x\<close>, the
  even multiple at a tie.
\<close>

function bitlength :: "int \<Rightarrow> nat" where
  "bitlength n = (if n \<le> 0 then 0 else Suc (bitlength (n div 2)))"
  by pat_completeness auto
termination
  by (relation "measure nat") auto

definition denorm :: real where
  "denorm = 2 ^ 1074"

definition roundHalfEven :: "real \<Rightarrow> int" where
  "roundHalfEven y =
     (let f = \<lfloor>y\<rfloor>; r = y - of_int f
      in if r < 1 / 2 then f else if r > 1 / 2 then f + 1 else if even f then f else f + 1)"

definition ulp :: "real \<Rightarrow> real" where
  "ulp x = 2 ^ (bitlength \<lfloor>\<bar>x\<bar> * denorm\<rfloor> - 53) / denorm"

definition fl :: "real \<Rightarrow> real" where
  "fl x = of_int (roundHalfEven (x / ulp x)) * ulp x"

text \<open>
  \<^verbatim>\<open>Math.round\<close> rounds to the nearest integer, a tie going towards plus infinity.
  Its result is an integral number and is kept as an \<^typ>\<open>int\<close>.
\<close>

definition Math_round :: "real \<Rightarrow> int" where
  "Math_round x = \<lfloor>x + 1 / 2\<rfloor>"

text \<open>
  The remainder operator \<^verbatim>\<open>%\<close> of JavaScript truncates the quotient towards zero,
  so the result has the sign of the dividend. The remainder of two doubles is a double.
\<close>

definition js_rem :: "real \<Rightarrow> real \<Rightarrow> real" where
  "js_rem x y = x - y * of_int (if 0 \<le> x / y then \<lfloor>x / y\<rfloor> else \<lceil>x / y\<rceil>)"


subsection \<open>Hexadecimal digits\<close>

text \<open>
  The character class \<^verbatim>\<open>[a-f\d]\<close> under the flag \<^verbatim>\<open>i\<close>: the decimal digits,
  \<^verbatim>\<open>a\<close> to \<^verbatim>\<open>f\<close> and \<^verbatim>\<open>A\<close> to \<^verbatim>\<open>F\<close>, as ranges of character codes.
\<close>

definition hexDigit :: "char \<Rightarrow> bool" where
  "hexDigit c =
     (let n = (of_char c :: nat)
      in (48 \<le> n \<and> n \<le> 57) \<or> (97 \<le> n \<and> n \<le> 102) \<or> (65 \<le> n \<and> n \<le> 70))"

definition hexVal :: "char \<Rightarrow> nat" where
  "hexVal c =
     (let n = (of_char c :: nat)
      in if 48 \<le> n \<and> n \<le> 57 then n - 48
         else if 97 \<le> n \<and> n \<le> 102 then n - 87
         else if 65 \<le> n \<and> n \<le> 70 then n - 55
         else 0)"

text \<open>
  \<^verbatim>\<open>parseInt(c, 16)\<close> reads the longest prefix of hexadecimal digits. It is only
  applied to the capture groups of the pattern, which are two hexadecimal digits each, so
  the result without any digit (\<^verbatim>\<open>NaN\<close> in the source) does not arise.
\<close>

definition parseInt16 :: "string \<Rightarrow> nat" where
  "parseInt16 str = foldl (\<lambda>acc c. 16 * acc + hexVal c) 0 (takeWhile hexDigit str)"

text \<open>
  \<^verbatim>\<open>n.toString(16)\<close> of an integral number: lower-case digits, most significant
  first, a minus sign in front of a negative number.
\<close>

definition digitChar :: "nat \<Rightarrow> char" where
  "digitChar d = ''0123456789abcdef'' ! d"

fun toHexDigits :: "nat \<Rightarrow> string" where
  "toHexDigits n = (if n < 16 then [digitChar n] else toHexDigits (n div 16) @ [digitChar (n mod 16)])"

definition toString16 :: "int \<Rightarrow> string" where
  "toString16 n = (if n < 0 then CHR ''-'' # toHexDigits (nat (- n)) else toHexDigits (nat n))"

definition padStart :: "nat \<Rightarrow> char \<Rightarrow> string \<Rightarrow> string" where
  "padStart targetLength c str = replicate (targetLength - length str) c @ str"

section \<open>The colour utilities\<close>

subsection \<open>The pattern and \<^verbatim>\<open>isValidHex\<close>\<close>

text \<open>
  \<^verbatim>\<open>const HEX_REGEX = /^#?([a-f\d]{2})([a-f\d]{2})([a-f\d]{2})$/i\<close>.
  \<open>HEX_REGEX_exec\<close> is \<^verbatim>\<open>HEX_REGEX.exec\<close>: \<open>None\<close> for \<^verbatim>\<open>null\<close>, otherwise the
  three capture groups. An optional leading \<^verbatim>\<open>#\<close> is dropped; what remains must be
  exactly six hexadecimal digits, up to the end of the input.
\<close>

definition HEX_REGEX_exec :: "string \<Rightarrow> (string \<times> string \<times> string) option" where
  "HEX_REGEX_exec str =
     (let body = (case str of [] \<Rightarrow> [] | c # cs \<Rightarrow> if c = CHR ''#'' then cs else str)
      in if length body = 6 \<and> list_all hexDigit body
         then Some (take 2 body, take 2 (drop 2 body), take 2 (drop 4 body))
         else None)"

definition isValidHex :: "string \<Rightarrow> bool" where
  "isValidHex hex = (HEX_REGEX_exec hex \<noteq> None)"

subsection \<open>\<^verbatim>\<open>hexToHSL\<close>\<close>

text \<open>
  The locals \<^verbatim>\<open>max\<close> and \<^verbatim>\<open>min\<close> of the source are \<open>cmax\<close> and \<open>cmin\<close> here. The
  \<^verbatim>\<open>switch (max)\<close> takes the first of the cases \<^verbatim>\<open>r\<close>, \<^verbatim>\<open>g\<close>, \<^verbatim>\<open>b\<close> that equals
  \<^verbatim>\<open>max\<close> and leaves \<^verbatim>\<open>h\<close> at 0 otherwise. \<^verbatim>\<open>2 - max - min\<close> is
  \<^verbatim>\<open>(2 - max) - min\<close>.
\<close>

definition hexToHSL :: "string \<Rightarrow> error + HSL" where
  "hexToHSL hex =
     (case HEX_REGEX_exec hex of
        None \<Rightarrow> Inl (Error (''Invalid hex color: '' @ hex))
      | Some (c1, c2, c3) \<Rightarrow>
          (let r = fl (real (parseInt16 c1) / 255);
               g = fl (real (parseInt16 c2) / 255);
               b = fl (real (parseInt16 c3) / 255);
               cmax = max (max r g) b;
               cmin = min (min r g) b;
               l = fl (fl (cmax + cmin) / 2);
               (h, s) =
                 (if cmax \<noteq> cmin then
                    (let d = fl (cmax - cmin);
                         s = (if l > 1 / 2 then fl (d / fl (fl (2 - cmax) - cmin))
                              else fl (d / fl (cmax + cmin)));
                         h = (if cmax = r
                              then fl (fl (fl (fl (g - b) / d) + (if g < b then 6 else 0)) / 6)
                              else if cmax = g then fl (fl (fl (fl (b - r) / d) + 2) / 6)
                              else if cmax = b then fl (fl (fl (fl (r - g) / d) + 4) / 6)
                              else 0)
                     in (h, s))
                  else (0, 0))
           in Inr \<lparr> h = of_int (Math_round (fl (h * 360))),
                    s = of_int (Math_round (fl (s * 100))),
                    l = of_int (Math_round (fl (l * 100))) \<rparr>))"

subsection \<open>\<^verbatim>\<open>hslToHex\<close>\<close>

text \<open>
  The parameters \<^verbatim>\<open>h\<close>, \<^verbatim>\<open>s\<close> and \<^verbatim>\<open>l\<close> of \<^verbatim>\<open>hslToHex\<close> are \<open>hue\<close>, \<open>sat\<close> and
  \<open>lig\<close> here (the short names are the fields of \<open>HSL\<close>); \<open>s1\<close> and \<open>l1\<close> are \<^verbatim>\<open>s\<close> and
  \<^verbatim>\<open>l\<close> after \<^verbatim>\<open>s /= 100; l /= 100\<close>. The inner function \<^verbatim>\<open>f\<close> closes over the hue, the
  normalised lightness and \<^verbatim>\<open>a\<close>; here they are parameters. \<open>hslToHex_color\<close> is its
  local \<^verbatim>\<open>color\<close>, a channel between 0 and 1.
\<close>

definition hslToHex_color :: "real \<Rightarrow> real \<Rightarrow> real \<Rightarrow> real \<Rightarrow> real" where
  "hslToHex_color hue l1 a n =
     (let k = js_rem (fl (n + fl (hue / 30))) 12
      in fl (l1 - fl (a * max (min (min (fl (k - 3)) (fl (9 - k))) 1) (- 1))))"

definition hslToHex_f :: "real \<Rightarrow> real \<Rightarrow> real \<Rightarrow> real \<Rightarrow> string" where
  "hslToHex_f hue l1 a n =
     padStart 2 (CHR ''0'') (toString16 (Math_round (fl (255 * hslToHex_color hue l1 a n))))"

definition hslToHex :: "real \<Rightarrow> real \<Rightarrow> real \<Rightarrow> string" where
  "hslToHex hue sat lig =
     (let s1 = fl (sat / 100);
          l1 = fl (lig / 100);
          a = fl (s1 * min l1 (fl (1 - l1)))
      in ''#'' @ hslToHex_f hue l1 a 0 @ hslToHex_f hue l1 a 8 @ hslToHex_f hue l1 a 4)"

subsection \<open>\<^verbatim>\<open>generateShadesFromPrimary\<close>\<close>

definition lightnessLevels :: "real list" where
  "lightnessLevels = [92, 78, 64, 50, 36]"

definition generateShadesFromPrimary :: "string \<Rightarrow> error + string list" where
  "generateShadesFromPrimary primaryHex =
     (case hexToHSL primaryHex of
        Inl e \<Rightarrow> Inl e
      | Inr hsl \<Rightarrow> Inr (map (\<lambda>lig. hslToHex (h hsl) (s hsl) lig) lightnessLevels))"

subsection \<open>Luminance and contrast\<close>

text \<open>The function mapped over the three capture groups in \<^verbatim>\<open>getLuminance\<close>.\<close>

definition getLuminance_channel :: "string \<Rightarrow> real" where
  "getLuminance_channel c =
     (let val = real (parseInt16 c) / 255
      in if val \<le> 0.03928 then val / 12.92 else ((val + 0.055) / 1.055) powr 2.4)"

definition getLuminance :: "string \<Rightarrow> real" where
  "getLuminance hex =
     (case HEX_REGEX_exec hex of
        None \<Rightarrow> 0
      | Some (c1, c2, c3) \<Rightarrow>
          (case map getLuminance_channel [c1, c2, c3] of
             [r, g, b] \<Rightarrow> 0.2126 * r + 0.7152 * g + 0.0722 * b
           | _ \<Rightarrow> 0))"

definition getContrastRatio :: "string \<Rightarrow> string \<Rightarrow> real" where
  "getContrastRatio foreground background =
     (let L1 = getLuminance foreground;
          L2 = getLuminance background;
          lighter = max L1 L2;
          darker = min L1 L2
      in (lighter + 0.05) / (darker + 0.05))"

text \<open>
  No statement of \<^verbatim>\<open>getContrastTextColor\<close>, of \<^verbatim>\<open>getContrastRatio\<close> or of
  \<^verbatim>\<open>getLuminance\<close> throws, so every path of the function returns normally.
\<close>

definition getContrastTextColor :: "string \<Rightarrow> error + string" where
  "getContrastTextColor hexBackground =
     (let black = ''#010101'';
          white = ''#FFFFFF'';
          ratioBlack = getContrastRatio black hexBackground;
          ratioWhite = getContrastRatio white hexBackground;
          blackPasses = (ratioBlack \<ge> 4.5);
          whitePasses = (ratioWhite \<ge> 4.5)
      in if blackPasses \<and> whitePasses then Inr (if ratioBlack \<ge> ratioWhite then black else white)
         else if blackPasses then Inr black
         else if whitePasses then Inr white
         else Inr (if ratioBlack \<ge> ratioWhite then black else white))"

section \<open>Auxiliary notions\<close>

text \<open>
  These definitions are not functions of the source; the proofs are stated with them.
  \<open>hexChannels\<close> are the three channel bytes of a hex colour, parsed as \<open>hexToHSL\<close> parses
  them. \<open>hexToHSL_h\<close>, \<open>hexToHSL_s\<close> and \<open>hexToHSL_l\<close> are the values of the locals
  \<^verbatim>\<open>h\<close>, \<^verbatim>\<open>s\<close> and \<^verbatim>\<open>l\<close> of \<open>hexToHSL\<close> before the final scaling and rounding, as the
  source computes them from its locals \<^verbatim>\<open>r\<close>, \<^verbatim>\<open>g\<close> and \<^verbatim>\<open>b\<close>.
\<close>

definition hexChannels :: "string \<Rightarrow> (nat \<times> nat \<times> nat) option" where
  "hexChannels hex =
     (case HEX_REGEX_exec hex of
        None \<Rightarrow> None
      | Some (c1, c2, c3) \<Rightarrow> Some (parseInt16 c1, parseInt16 c2, parseInt16 c3))"

definition hexToHSL_l :: "real \<Rightarrow> real \<Rightarrow> real \<Rightarrow> real" where
  "hexToHSL_l r g b = fl (fl (max (max r g) b + min (min r g) b) / 2)"

definition hexToHSL_s :: "real \<Rightarrow> real \<Rightarrow> real \<Rightarrow> real" where
  "hexToHSL_s r g b =
     (let cmax = max (max r g) b; cmin = min (min r g) b
      in if cmax \<noteq> cmin then
           (if hexToHSL_l r g b > 1 / 2 then fl (fl (cmax - cmin) / fl (fl (2 - cmax) - cmin))
            else fl (fl (cmax - cmin) / fl (cmax + cmin)))
         else 0)"

definition hexToHSL_h :: "real \<Rightarrow> real \<Rightarrow> real \<Rightarrow> real" where
  "hexToHSL_h r g b =
     (let cmax = max (max r g) b; cmin = min (min r g) b
      in if cmax \<noteq> cmin then
           (if cmax = r
            then fl (fl (fl (fl (g - b) / fl (cmax - cmin)) + (if g < b then 6 else 0)) / 6)
            else if cmax = g then fl (fl (fl (fl (b - r) / fl (cmax - cmin)) + 2) / 6)
            else if cmax = b then fl (fl (fl (fl (r - g) / fl (cmax - cmin)) + 4) / 6)
            else 0)
         else 0)"

text \<open>
  \<open>hexToHSL_hue\<close> and \<open>hexToHSL_sat\<close> are the hue (as a fraction of the circle) and the
  saturation of the channels \<open>r\<close>, \<open>g\<close>, \<open>b\<close> in exact arithmetic, by the formulas of
  \<open>hexToHSL\<close> without any rounding.
\<close>

definition hexToHSL_hue :: "real \<Rightarrow> real \<Rightarrow> real \<Rightarrow> real" where
  "hexToHSL_hue r g b =
     (let cmax = max (max r g) b; cmin = min (min r g) b; d = cmax - cmin
      in if cmax \<noteq> cmin then
           (if cmax = r then ((g - b) / d + (if g < b then 6 else 0)) / 6
            else if cmax = g then ((b - r) / d + 2) / 6
            else if cmax = b then ((r - g) / d + 4) / 6
            else 0)
         else 0)"

definition hexToHSL_sat :: "real \<Rightarrow> real \<Rightarrow> real \<Rightarrow> real" where
  "hexToHSL_sat r g b =
     (let cmax = max (max r g) b; cmin = min (min r g) b; d = cmax - cmin
      in if cmax \<noteq> cmin then
           (if (cmax + cmin) / 2 > 1 / 2 then d / (2 - cmax - cmin) else d / (cmax + cmin))
         else 0)"

text \<open>
  \<open>hslToHex_wave\<close> is the factor of \<^verbatim>\<open>a\<close> in the local \<^verbatim>\<open>color\<close> of \<open>hslToHex\<close> in exact
  arithmetic, as a function of \<^verbatim>\<open>n + h / 30\<close>; \<open>hslToHex_wave_fl\<close> is the same factor as
  the source computes it from the double \<open>y\<close> that it has for \<^verbatim>\<open>n + h / 30\<close>.
\<close>

definition hslToHex_wave :: "real \<Rightarrow> real" where
  "hslToHex_wave y = (let k = js_rem y 12 in max (min (min (k - 3) (9 - k)) 1) (- 1))"

definition hslToHex_wave_fl :: "real \<Rightarrow> real" where
  "hslToHex_wave_fl y =
     (let k = js_rem y 12 in max (min (min (fl (k - 3)) (fl (9 - k))) 1) (- 1))"

section \<open>Rounding to a double\<close>

declare bitlength.simps [simp del]

lemma bitlength_0: "n \<le> 0 \<Longrightarrow> bitlength n = 0"
  by (simp add: bitlength.simps)

lemma bitlength_bounds:
  "0 < n \<Longrightarrow> 2 ^ (bitlength n - 1) \<le> n \<and> n < 2 ^ bitlength n"
proof (induction n rule: bitlength.induct)
  case (1 n)
  show ?case
  proof (cases "n div 2 \<le> 0")
    case True
    with 1(2) have "n = 1" by linarith
    moreover have "bitlength 1 = 1"
      by (simp add: bitlength.simps [of 1] bitlength_0)
    ultimately show ?thesis by simp
  next
    case False
    then have m: "0 < n div 2" by simp
    from 1(2) have n0: "\<not> n \<le> 0" by simp
    note IH = 1(1) [OF n0 m]
    define k where "k = bitlength (n div 2)"
    have k1: "1 \<le> k" using m by (simp add: k_def bitlength.simps [of "n div 2"])
    have bl: "bitlength n = Suc k" using n0 by (simp add: bitlength.simps [of n] k_def)
    have p: "(2::int) ^ k = 2 * 2 ^ (k - 1)" using k1 by (cases k) simp_all
    from IH have a: "2 ^ (k - 1) \<le> n div 2" and b: "n div 2 < 2 ^ k" by (simp_all add: k_def)
    have "2 * 2 ^ (k - 1) \<le> n" using a by linarith
    moreover have "n < 2 * 2 ^ k" using b by linarith
    ultimately show ?thesis by (simp add: bl p)
  qed
qed

lemma bitlength_mono: "m \<le> n \<Longrightarrow> bitlength m \<le> bitlength n"
proof (cases "m \<le> 0")
  case True
  then show ?thesis by (simp add: bitlength_0)
next
  case False
  assume mn: "m \<le> n"
  show ?thesis
  proof (rule ccontr)
    assume "\<not> bitlength m \<le> bitlength n"
    then have "bitlength n \<le> bitlength m - 1" by simp
    then have "(2::int) ^ bitlength n \<le> 2 ^ (bitlength m - 1)"
      by (rule power_increasing) simp
    also have "\<dots> \<le> m" using bitlength_bounds [of m] False by simp
    also have "\<dots> \<le> n" by (rule mn)
    also have "\<dots> < 2 ^ bitlength n" using bitlength_bounds [of n] False mn by simp
    finally show False by simp
  qed
qed

subsection \<open>Rounding to an integer, ties to even\<close>

lemma roundHalfEven_cases:
  "roundHalfEven y = \<lfloor>y\<rfloor> \<or> roundHalfEven y = \<lfloor>y\<rfloor> + 1"
  by (simp add: roundHalfEven_def Let_def)

lemma roundHalfEven_near: "\<bar>of_int (roundHalfEven y) - y\<bar> \<le> 1 / 2"
proof -
  have "of_int \<lfloor>y\<rfloor> \<le> y" "y < of_int \<lfloor>y\<rfloor> + 1" by linarith+
  then show ?thesis by (auto simp: roundHalfEven_def Let_def)
qed

lemma roundHalfEven_of_int: "roundHalfEven (of_int n) = n"
  by (simp add: roundHalfEven_def)

lemma roundHalfEven_mono:
  assumes "x \<le> y"
  shows "roundHalfEven x \<le> roundHalfEven y"
proof (cases "\<lfloor>x\<rfloor> = \<lfloor>y\<rfloor>")
  case True
  have "x - of_int \<lfloor>y\<rfloor> \<le> y - of_int \<lfloor>y\<rfloor>" using assms by simp
  then show ?thesis by (auto simp: roundHalfEven_def Let_def True)
next
  case False
  with assms have "\<lfloor>x\<rfloor> < \<lfloor>y\<rfloor>" using floor_mono [OF assms] by linarith
  moreover have "roundHalfEven x \<le> \<lfloor>x\<rfloor> + 1" using roundHalfEven_cases [of x] by linarith
  moreover have "\<lfloor>y\<rfloor> \<le> roundHalfEven y" using roundHalfEven_cases [of y] by linarith
  ultimately show ?thesis by linarith
qed

lemma roundHalfEven_minus: "roundHalfEven (- y) = - roundHalfEven y"
proof (cases "y \<in> \<int>")
  case True
  then obtain n where "y = of_int n" by (auto elim: Ints_cases)
  then show ?thesis
    using roundHalfEven_of_int [of n] roundHalfEven_of_int [of "- n"] by simp
next
  case False
  then have "y \<noteq> of_int \<lfloor>y\<rfloor>" using Ints_of_int by metis
  then have c: "\<lceil>y\<rceil> = \<lfloor>y\<rfloor> + 1" by (simp add: ceiling_altdef)
  have f: "\<lfloor>- y\<rfloor> = - \<lfloor>y\<rfloor> - 1" using c by (simp add: floor_minus)
  show ?thesis
    unfolding roundHalfEven_def Let_def f by (auto simp: algebra_simps)
qed

subsection \<open>The unit in the last place\<close>

lemma denorm_pos: "0 < denorm"
  by (simp add: denorm_def)

lemma ulp_pos: "0 < ulp x"
  by (simp add: ulp_def denorm_pos)

lemma ulp_minus: "ulp (- x) = ulp x"
  by (simp add: ulp_def)

lemma ulp_mono: "\<bar>x\<bar> \<le> \<bar>y\<bar> \<Longrightarrow> ulp x \<le> ulp y"
proof -
  assume a: "\<bar>x\<bar> \<le> \<bar>y\<bar>"
  have "\<bar>x\<bar> * denorm \<le> \<bar>y\<bar> * denorm"
    by (rule mult_right_mono) (use a denorm_pos in simp_all)
  then have "\<lfloor>\<bar>x\<bar> * denorm\<rfloor> \<le> \<lfloor>\<bar>y\<bar> * denorm\<rfloor>"
    by (rule floor_mono)
  then have "bitlength \<lfloor>\<bar>x\<bar> * denorm\<rfloor> - 53 \<le> bitlength \<lfloor>\<bar>y\<bar> * denorm\<rfloor> - 53"
    using bitlength_mono diff_le_mono by blast
  then have "(2::real) ^ (bitlength \<lfloor>\<bar>x\<bar> * denorm\<rfloor> - 53)
      \<le> 2 ^ (bitlength \<lfloor>\<bar>y\<bar> * denorm\<rfloor> - 53)"
    by (rule power_increasing) simp
  then show ?thesis
    unfolding ulp_def by (rule divide_right_mono) (use denorm_pos in simp)
qed

text \<open>Every number is below \<open>2 ^ 53\<close> units in the last place.\<close>

lemma ulp_upper: "\<bar>x\<bar> < 2 ^ 53 * ulp x"
proof -
  define N where "N = \<lfloor>\<bar>x\<bar> * denorm\<rfloor>"
  have lt: "\<bar>x\<bar> * denorm < of_int N + 1" unfolding N_def by linarith
  have "N < 2 ^ bitlength N"
  proof (cases "N \<le> 0")
    case True
    then show ?thesis by (simp add: bitlength_0)
  next
    case False
    then show ?thesis using bitlength_bounds [of N] by simp
  qed
  then have "N + 1 \<le> 2 ^ bitlength N" by simp
  also have "\<dots> \<le> 2 ^ (53 + (bitlength N - 53))"
    by (rule power_increasing) simp_all
  finally have "real_of_int (N + 1) \<le> real_of_int (2 ^ (53 + (bitlength N - 53)))"
    by (simp only: of_int_le_iff)
  then have "of_int N + 1 \<le> (2::real) ^ 53 * 2 ^ (bitlength N - 53)"
    by (simp add: power_add)
  with lt have "\<bar>x\<bar> * denorm < 2 ^ 53 * 2 ^ (bitlength N - 53)" by linarith
  then have "\<bar>x\<bar> < 2 ^ 53 * 2 ^ (bitlength N - 53) / denorm"
    using denorm_pos by (simp add: pos_less_divide_eq)
  then show ?thesis by (simp add: ulp_def N_def)
qed

text \<open>Above the subnormal range a number is at least \<open>2 ^ 52\<close> units in the last place.\<close>

lemma ulp_lower:
  assumes "1 / denorm < ulp x"
  shows "2 ^ 52 * ulp x \<le> \<bar>x\<bar>"
proof -
  define N where "N = \<lfloor>\<bar>x\<bar> * denorm\<rfloor>"
  define c where "c = bitlength N - 53"
  have u: "ulp x = 2 ^ c / denorm" by (simp add: ulp_def N_def c_def)
  have "(1::real) < 2 ^ c" using assms denorm_pos by (simp add: u divide_less_cancel)
  then have c0: "0 < c" by (cases c) simp_all
  then have b: "bitlength N = c + 53" by (simp add: c_def)
  then have N0: "0 < N" using bitlength_0 [of N] by (cases "N \<le> 0") simp_all
  have "2 ^ (bitlength N - 1) \<le> N" using bitlength_bounds [OF N0] by simp
  then have "2 ^ (52 + c) \<le> N" by (simp add: b add.commute)
  then have "real_of_int (2 ^ (52 + c)) \<le> real_of_int N" by (simp only: of_int_le_iff)
  then have "2 ^ 52 * 2 ^ c \<le> real_of_int N" by (simp add: power_add)
  also have "\<dots> \<le> \<bar>x\<bar> * denorm" unfolding N_def by linarith
  finally have "2 ^ 52 * 2 ^ c / denorm \<le> \<bar>x\<bar>"
    using denorm_pos by (simp add: pos_divide_le_eq)
  then show ?thesis by (simp add: u)
qed

lemma ulp_dyadic: "\<exists>c. ulp x = 2 ^ c / denorm"
  by (auto simp: ulp_def)

lemma ulp_le_pow:
  assumes "\<bar>x\<bar> \<le> 2 ^ k"
  shows "ulp x \<le> 2 ^ k / 2 ^ 52"
proof (cases "1 / denorm < ulp x")
  case True
  from ulp_lower [OF True] assms have "2 ^ 52 * ulp x \<le> 2 ^ k" by linarith
  then show ?thesis by (simp add: field_simps)
next
  case False
  then have "ulp x \<le> 1 / denorm" by simp
  also have "\<dots> = 1 / 2 ^ 1074" by (simp only: denorm_def)
  also have "\<dots> \<le> 1 / 2 ^ 52" by (intro divide_left_mono power_increasing) simp_all
  also have "\<dots> \<le> 2 ^ k / 2 ^ 52" by (intro divide_right_mono) simp_all
  finally show ?thesis .
qed

subsection \<open>Error, sign and monotonicity of the rounding\<close>

lemma fl_error: "\<bar>fl x - x\<bar> \<le> ulp x / 2"
proof -
  have "fl x - x = (of_int (roundHalfEven (x / ulp x)) - x / ulp x) * ulp x"
    using ulp_pos [of x] by (simp add: fl_def field_simps)
  then have "\<bar>fl x - x\<bar> = \<bar>of_int (roundHalfEven (x / ulp x)) - x / ulp x\<bar> * ulp x"
    using ulp_pos [of x] by (simp add: abs_mult)
  also have "\<dots> \<le> 1 / 2 * ulp x"
    by (rule mult_right_mono [OF roundHalfEven_near]) (use ulp_pos [of x] in simp)
  finally show ?thesis by simp
qed

lemma fl_error_pow:
  assumes "\<bar>x\<bar> \<le> 2 ^ k"
  shows "\<bar>fl x - x\<bar> \<le> 2 ^ k / 2 ^ 53"
  using fl_error [of x] ulp_le_pow [OF assms] by (simp add: field_simps)

lemma fl_minus: "fl (- x) = - fl x"
  by (simp add: fl_def ulp_minus roundHalfEven_minus)

lemma fl_0: "fl 0 = 0"
  using roundHalfEven_of_int [of 0] by (simp add: fl_def)

lemma fl_nonneg: "0 \<le> x \<Longrightarrow> 0 \<le> fl x"
proof -
  assume "0 \<le> x"
  then have "0 \<le> x / ulp x" using ulp_pos [of x] by simp
  from roundHalfEven_mono [OF this] have "0 \<le> roundHalfEven (x / ulp x)"
    using roundHalfEven_of_int [of 0] by simp
  then show ?thesis using ulp_pos [of x] by (simp add: fl_def)
qed

lemma fl_mono_pos:
  assumes "0 \<le> x" "x \<le> y"
  shows "fl x \<le> fl y"
proof (cases "ulp x = ulp y")
  case True
  have "x / ulp y \<le> y / ulp y"
    by (rule divide_right_mono) (use assms ulp_pos [of y] in simp_all)
  from roundHalfEven_mono [OF this] show ?thesis
    unfolding fl_def True
    by (intro mult_right_mono) (use ulp_pos [of y] in simp_all)
next
  case False
  have le: "ulp x \<le> ulp y" by (rule ulp_mono) (use assms in simp)
  obtain c where c: "ulp x = 2 ^ c / denorm" using ulp_dyadic by blast
  obtain c' where c': "ulp y = 2 ^ c' / denorm" using ulp_dyadic by blast
  from False le have "ulp x < ulp y" by simp
  then have "(2::real) ^ c < 2 ^ c'" using denorm_pos by (simp add: c c' divide_less_cancel)
  then have cc: "c < c'" by simp
  then have "Suc c \<le> c'" by simp
  then have "(2::real) ^ Suc c \<le> 2 ^ c'" by (rule power_increasing) simp
  then have two: "2 * ulp x \<le> ulp y"
    using denorm_pos by (simp add: c c' divide_le_cancel)
  have "1 / denorm < ulp y"
    using cc denorm_pos by (simp add: c' divide_less_cancel) 
  note lo = ulp_lower [OF this]
  have "x / ulp x \<le> of_int (2 ^ 53)"
    using ulp_upper [of x] ulp_pos [of x] assms by (simp add: pos_divide_le_eq)
  from roundHalfEven_mono [OF this] have "roundHalfEven (x / ulp x) \<le> 2 ^ 53"
    by (simp only: roundHalfEven_of_int)
  then have "real_of_int (roundHalfEven (x / ulp x)) \<le> 2 ^ 53"
    by (metis of_int_le_iff of_int_numeral of_int_power)
  then have "fl x \<le> 2 ^ 53 * ulp x"
    unfolding fl_def by (intro mult_right_mono) (use ulp_pos [of x] in simp_all)
  also have "\<dots> \<le> 2 ^ 52 * ulp y" using two by simp
  finally have a: "fl x \<le> 2 ^ 52 * ulp y" .
  have "of_int (2 ^ 52) \<le> y / ulp y"
    using lo ulp_pos [of y] assms by (simp add: pos_le_divide_eq)
  from roundHalfEven_mono [OF this] have "2 ^ 52 \<le> roundHalfEven (y / ulp y)"
    by (simp only: roundHalfEven_of_int)
  then have "2 ^ 52 \<le> real_of_int (roundHalfEven (y / ulp y))"
    by (metis of_int_le_iff of_int_numeral of_int_power)
  then have "2 ^ 52 * ulp y \<le> fl y"
    unfolding fl_def by (intro mult_right_mono) (use ulp_pos [of y] in simp_all)
  with a show ?thesis by linarith
qed

lemma fl_mono:
  assumes "x \<le> y"
  shows "fl x \<le> fl y"
proof -
  consider "0 \<le> x" | "x < 0" "0 \<le> y" | "y < 0" using assms by linarith
  then show ?thesis
  proof cases
    case 1
    then show ?thesis using assms by (rule fl_mono_pos)
  next
    case 2
    then have "0 \<le> fl (- x)" "0 \<le> fl y" by (simp_all add: fl_nonneg)
    then show ?thesis by (simp add: fl_minus)
  next
    case 3
    then have "fl (- y) \<le> fl (- x)" using assms by (intro fl_mono_pos) simp_all
    then show ?thesis by (simp add: fl_minus)
  qed
qed

subsection \<open>Numbers that are doubles\<close>

lemma fl_of_int_multiple:
  assumes "x = of_int m * ulp x"
  shows "fl x = x"
proof -
  have "x / ulp x = of_int m" using assms ulp_pos [of x] by (simp add: field_simps)
  then show ?thesis using assms by (simp add: fl_def roundHalfEven_of_int)
qed

text \<open>
  A multiple \<open>n * 2 ^ a / denorm\<close> of a power of two, with at most 53 bits in \<open>n\<close>, is a
  double.
\<close>

lemma fl_exact:
  assumes "\<bar>n\<bar> \<le> 2 ^ 53" and x: "x = of_int n * 2 ^ a / denorm"
  shows "fl x = x"
proof -
  obtain c where c: "ulp x = 2 ^ c / denorm" using ulp_dyadic by blast
  have n: "\<bar>real_of_int n\<bar> \<le> 2 ^ 53"
    using assms(1) by (metis of_int_abs of_int_le_iff of_int_numeral of_int_power)
  show ?thesis
  proof (cases "c \<le> a")
    case True
    then obtain j where j: "a = c + j" using le_Suc_ex by blast
    have "x = of_int (n * 2 ^ j) * ulp x"
      unfolding c by (simp add: x j power_add)
    then show ?thesis by (rule fl_of_int_multiple)
  next
    case False
    then have ca: "Suc a \<le> c" by simp
    then have c0: "0 < c" by simp
    have "1 / denorm < ulp x"
      using c0 denorm_pos by (simp add: c divide_less_cancel)
    from ulp_lower [OF this] have "2 ^ 52 * 2 ^ c / denorm \<le> \<bar>x\<bar>" by (simp only: c) simp
    also have "\<bar>x\<bar> = \<bar>real_of_int n\<bar> * 2 ^ a / denorm"
      using denorm_pos by (simp add: x abs_mult)
    finally have le: "2 ^ 52 * 2 ^ c \<le> \<bar>real_of_int n\<bar> * 2 ^ a"
      using denorm_pos by (simp add: divide_le_cancel)
    have "(2::real) ^ Suc a \<le> 2 ^ c" using ca by (rule power_increasing) simp
    then have "2 ^ 52 * (2 * 2 ^ a) \<le> 2 ^ 52 * (2::real) ^ c" by simp
    then have "2 ^ 52 * (2 * 2 ^ a) \<le> \<bar>real_of_int n\<bar> * (2::real) ^ a"
      using le by (rule order_trans)
    moreover have "(2::real) ^ 53 * 2 ^ a = 2 ^ 52 * (2 * 2 ^ a)" by simp
    ultimately have "2 ^ 53 * 2 ^ a \<le> \<bar>real_of_int n\<bar> * (2::real) ^ a" by (simp only:)
    then have ge: "2 ^ 53 \<le> \<bar>real_of_int n\<bar>" by (simp only: mult_le_cancel_right) simp
    with n have n53: "\<bar>real_of_int n\<bar> = 2 ^ 53" by simp
    have "\<bar>x\<bar> < 2 ^ 53 * (2 ^ c / denorm)"
      using ulp_upper [of x] by (simp only: c)
    then have "\<bar>real_of_int n\<bar> * 2 ^ a < 2 ^ 53 * 2 ^ c"
      using denorm_pos by (simp add: x abs_mult divide_less_cancel)
    then have "(2::real) ^ a < 2 ^ c" by (simp add: n53)
    moreover have "(2::real) ^ c \<le> 2 ^ Suc a"
    proof -
      from le have "2 ^ 52 * 2 ^ c \<le> 2 ^ 53 * (2::real) ^ a" by (simp add: n53)
      then show ?thesis by simp
    qed
    then have "c \<le> Suc a"
      using power_increasing_iff [of "2::real" c "Suc a"] by (simp del: power_Suc)
    with ca have cs: "c = Suc a" by simp
    have "\<bar>n\<bar> = 2 ^ 53"
      using n53 by (metis of_int_abs of_int_eq_iff of_int_numeral of_int_power)
    then have "n = 2 ^ 53 \<or> n = - (2 ^ 53)" by (simp add: abs_if split: if_splits)
    then have "n = 2 * (n div 2)" by auto
    then have "real_of_int n = 2 * of_int (n div 2)"
      by (metis of_int_mult of_int_numeral)
    then have "x = of_int (n div 2) * ulp x"
      unfolding c by (simp add: x cs)
    then show ?thesis by (rule fl_of_int_multiple)
  qed
qed

lemma roundHalfEven_ulp_bound: "\<bar>roundHalfEven (x / ulp x)\<bar> \<le> 2 ^ 53"
proof -
  have "x / ulp x \<le> of_int (2 ^ 53)" "of_int (- (2 ^ 53)) \<le> x / ulp x"
    using ulp_upper [of x] ulp_pos [of x] by (simp_all add: pos_divide_le_eq pos_le_divide_eq)
  from roundHalfEven_mono [OF this(1)] roundHalfEven_mono [OF this(2)]
  show ?thesis by (simp only: roundHalfEven_of_int)
qed

lemma fl_idem: "fl (fl x) = fl x"
proof -
  obtain c where c: "ulp x = 2 ^ c / denorm" using ulp_dyadic by blast
  show ?thesis
    by (rule fl_exact [OF roundHalfEven_ulp_bound [of x], where a = c]) (simp add: fl_def c)
qed

lemma fl_of_int:
  assumes "\<bar>n\<bar> \<le> 2 ^ 53"
  shows "fl (of_int n) = of_int n"
  by (rule fl_exact [OF assms, where a = 1074]) (simp add: denorm_def)

lemma fl_numerals:
  "fl 1 = 1" "fl (- 1) = - 1" "fl 2 = 2" "fl 6 = 6" "fl 12 = 12" "fl 255 = 255" "fl 360 = 360"
  "fl 100 = 100" "fl 4 = 4" "fl 8 = 8" "fl 20 = 20"
  using fl_of_int [of 1] fl_of_int [of "- 1"] fl_of_int [of 2] fl_of_int [of 6] fl_of_int [of 12]
    fl_of_int [of 255] fl_of_int [of 360] fl_of_int [of 100] fl_of_int [of 4] fl_of_int [of 8]
    fl_of_int [of 20]
  by simp_all

text \<open>
  The complement \<open>1 - z\<close> of a double \<open>z\<close> in \<open>[1 / 2, 1]\<close> is a double, so this
  subtraction is exact.
\<close>

lemma ulp_binade:
  assumes lo: "2 ^ (52 + c) / denorm \<le> \<bar>z\<bar>" and hi: "\<bar>z\<bar> < 2 ^ (53 + c) / denorm"
  shows "ulp z = 2 ^ c / denorm"
proof -
  define N where "N = \<lfloor>\<bar>z\<bar> * denorm\<rfloor>"
  have lo': "2 ^ (52 + c) \<le> \<bar>z\<bar> * denorm"
    using lo denorm_pos by (simp add: pos_divide_le_eq)
  have hi': "\<bar>z\<bar> * denorm < 2 ^ (53 + c)"
    using hi denorm_pos by (simp add: pos_less_divide_eq)
  have "of_int ((2::int) ^ (52 + c)) \<le> \<bar>z\<bar> * denorm" using lo' by simp
  then have Nlo: "(2::int) ^ (52 + c) \<le> N" unfolding N_def by (simp only: le_floor_iff)
  have "\<bar>z\<bar> * denorm < of_int ((2::int) ^ (53 + c))" using hi' by simp
  then have Nhi: "N < (2::int) ^ (53 + c)" unfolding N_def by (simp only: floor_less_iff)
  have "(0::int) < 2 ^ (52 + c)" by simp
  with Nlo have N0: "0 < N" by linarith
  note b = bitlength_bounds [OF N0]
  have "(2::int) ^ (bitlength N - 1) < 2 ^ (53 + c)" using b Nhi by linarith
  then have 1: "bitlength N - 1 < 53 + c" by simp
  have "(2::int) ^ (52 + c) < 2 ^ bitlength N" using b Nlo by linarith
  then have 2: "52 + c < bitlength N" by simp
  from 1 2 have "bitlength N = 53 + c" by linarith
  then show ?thesis by (simp add: ulp_def N_def [symmetric])
qed

lemma ulp_half_one:
  assumes "1 / 2 \<le> z" "z < 1"
  shows "ulp z = 2 ^ 1021 / denorm"
proof (rule ulp_binade)
  have e1: "(2::real) ^ (52 + 1021) / denorm = 1 / 2" by (simp add: denorm_def)
  show "2 ^ (52 + 1021) / denorm \<le> \<bar>z\<bar>" unfolding e1 using assms by simp
  have e2: "(2::real) ^ (53 + 1021) / denorm = 1" by (simp add: denorm_def)
  show "\<bar>z\<bar> < 2 ^ (53 + 1021) / denorm" unfolding e2 using assms by simp
qed

lemma fl_one_minus:
  assumes "fl z = z" "1 / 2 \<le> z" "z \<le> 1"
  shows "fl (1 - z) = 1 - z"
proof (cases "z = 1")
  case True
  then show ?thesis by (simp add: fl_0)
next
  case False
  with assms have z1: "z < 1" by simp
  note u = ulp_half_one [OF assms(2) z1]
  define m where "m = roundHalfEven (z / ulp z)"
  have z: "z = of_int m * 2 ^ 1021 / denorm"
    using assms(1) by (simp add: fl_def m_def u)
  have one: "(1::real) = 2 ^ 53 * 2 ^ 1021 / denorm" by (simp add: denorm_def)
  have m0: "0 \<le> m"
  proof -
    have "0 \<le> z / ulp z" using assms ulp_pos [of z] by simp
    from roundHalfEven_mono [OF this] show ?thesis
      using roundHalfEven_of_int [of 0] by (simp add: m_def)
  qed
  have m53: "m \<le> 2 ^ 53" using roundHalfEven_ulp_bound [of z] by (simp add: m_def)
  have "1 - z = 2 ^ 53 * 2 ^ 1021 / denorm - of_int m * 2 ^ 1021 / denorm"
    using one z by simp
  also have "\<dots> = of_int (2 ^ 53 - m) * 2 ^ 1021 / denorm"
    by (simp add: algebra_simps diff_divide_distrib)
  finally have e: "1 - z = of_int (2 ^ 53 - m) * 2 ^ 1021 / denorm" .
  show ?thesis
    by (rule fl_exact [OF _ e]) (use m0 m53 in simp)
qed

section \<open>Strings: digits, bytes and the pattern\<close>

lemma hexDigit_iff: "hexDigit c \<longleftrightarrow> c \<in> set ''0123456789abcdefABCDEF''"
proof -
  have "hexDigit c \<longleftrightarrow> (of_char c :: nat) \<in> {48..57} \<union> {97..102} \<union> {65..70}"
    by (auto simp: hexDigit_def Let_def)
  also have "{48..57} \<union> {97..102} \<union> {65..70}
      = {48,49,50,51,52,53,54,55,56,57,97,98,99,100,101,102,65,66,67,68,69,70::nat}"
    by (auto simp del: insert_iff) presburger+
  also have "\<dots> = of_char ` set ''0123456789abcdefABCDEF''"
    by simp
  also have "(of_char c :: nat) \<in> of_char ` set ''0123456789abcdefABCDEF''
      \<longleftrightarrow> c \<in> set ''0123456789abcdefABCDEF''"
    by (rule inj_image_mem_iff [OF inj_of_char])
  finally show ?thesis .
qed

lemma lt16_cases:
  "d < 16 \<Longrightarrow> d \<in> {0,1,2,3,4,5,6,7,8,9,10,11,12,13,14,15::nat}"
  by (simp only: insert_iff empty_iff) presburger

lemma hexDigit_digitChar: "d < 16 \<Longrightarrow> hexDigit (digitChar d)"
  by (drule lt16_cases) (auto simp: hexDigit_def digitChar_def)

lemma hexVal_digitChar: "d < 16 \<Longrightarrow> hexVal (digitChar d) = d"
  by (drule lt16_cases) (auto simp: hexVal_def digitChar_def)

declare toHexDigits.simps [simp del]

lemma toHexDigits_byte:
  assumes "n < 256"
  shows "padStart 2 (CHR ''0'') (toString16 (int n)) = [digitChar (n div 16), digitChar (n mod 16)]"
proof (cases "n < 16")
  case True
  then show ?thesis
    by (simp add: padStart_def toString16_def toHexDigits.simps [of n] digitChar_def)
next
  case False
  with assms have "n div 16 < 16" by simp
  with False show ?thesis
    by (simp add: padStart_def toString16_def toHexDigits.simps [of n] toHexDigits.simps [of "n div 16"])
qed

lemma parseInt16_two:
  "a < 16 \<Longrightarrow> b < 16 \<Longrightarrow> parseInt16 [digitChar a, digitChar b] = 16 * a + b"
  by (simp add: parseInt16_def hexDigit_digitChar hexVal_digitChar)

lemma parseInt16_byte:
  "n < 256 \<Longrightarrow> parseInt16 [digitChar (n div 16), digitChar (n mod 16)] = n"
  by (subst parseInt16_two) simp_all

lemma HEX_REGEX_exec_bytes:
  assumes "a1 < 16" "a2 < 16" "a3 < 16" "a4 < 16" "a5 < 16" "a6 < 16"
  shows "HEX_REGEX_exec (CHR ''#'' # [digitChar a1, digitChar a2, digitChar a3, digitChar a4, digitChar a5, digitChar a6])
     = Some ([digitChar a1, digitChar a2], [digitChar a3, digitChar a4], [digitChar a5, digitChar a6])"
  using assms by (simp add: HEX_REGEX_exec_def hexDigit_digitChar)

section \<open>Luminance and contrast ratio\<close>

lemma hexVal_le: "hexVal c \<le> 15"
  by (auto simp: hexVal_def Let_def)

lemma parseInt16_le:
  assumes "length c \<le> 2"
  shows "parseInt16 c \<le> 255"
proof -
  have len: "length (takeWhile hexDigit c) \<le> 2"
    using assms length_takeWhile_le [of hexDigit c] by linarith
  have "foldl (\<lambda>acc x. 16 * acc + hexVal x) 0 ds \<le> 255" if "length ds \<le> 2" for ds
  proof (cases ds)
    case Nil
    then show ?thesis by simp
  next
    case (Cons x xs)
    show ?thesis
    proof (cases xs)
      case Nil
      with Cons show ?thesis using hexVal_le [of x] by simp
    next
      case (Cons y ys)
      with that \<open>ds = x # xs\<close> have "ys = []" by simp
      with Cons \<open>ds = x # xs\<close> show ?thesis
        using hexVal_le [of x] hexVal_le [of y] by simp
    qed
  qed
  from this [OF len] show ?thesis by (simp add: parseInt16_def)
qed

lemma HEX_REGEX_exec_groups:
  assumes "HEX_REGEX_exec str = Some (c1, c2, c3)"
  shows "length c1 \<le> 2 \<and> length c2 \<le> 2 \<and> length c3 \<le> 2"
  using assms by (auto simp: HEX_REGEX_exec_def Let_def split: if_splits)

lemma getLuminance_channel_range:
  assumes "length c \<le> 2"
  shows "0 \<le> getLuminance_channel c \<and> getLuminance_channel c \<le> 1"
proof -
  define v where "v = real (parseInt16 c) / 255"
  have v: "0 \<le> v" "v \<le> 1"
    using parseInt16_le [OF assms] by (simp_all add: v_def)
  show ?thesis
  proof (cases "v \<le> 0.03928")
    case True
    with v show ?thesis
      by (simp add: getLuminance_channel_def Let_def flip: v_def)
  next
    case False
    define q where "q = (v + 0.055) / 1.055"
    have q: "0 \<le> q" "q \<le> 1" using v by (simp_all add: q_def)
    have "q powr 2.4 \<le> 1 powr 2.4"
      by (rule powr_mono2) (use q in simp_all)
    then have "0 \<le> q powr 2.4 \<and> q powr 2.4 \<le> 1" by simp
    moreover have "getLuminance_channel c = q powr 2.4"
      unfolding getLuminance_channel_def Let_def q_def v_def
      using False unfolding v_def by simp
    ultimately show ?thesis by simp
  qed
qed

lemma getLuminance_range: "0 \<le> getLuminance hex \<and> getLuminance hex \<le> 1"
proof (cases "HEX_REGEX_exec hex")
  case None
  then show ?thesis by (simp add: getLuminance_def)
next
  case (Some t)
  obtain c1 c2 c3 where t: "t = (c1, c2, c3)" by (cases t) auto
  from Some t HEX_REGEX_exec_groups [of hex c1 c2 c3]
  have len: "length c1 \<le> 2" "length c2 \<le> 2" "length c3 \<le> 2" by simp_all
  note r = getLuminance_channel_range [OF len(1)]
   and g = getLuminance_channel_range [OF len(2)]
   and b = getLuminance_channel_range [OF len(3)]
  have eq: "getLuminance hex = 0.2126 * getLuminance_channel c1
      + 0.7152 * getLuminance_channel c2 + 0.0722 * getLuminance_channel c3"
    using Some t by (simp add: getLuminance_def)
  show ?thesis unfolding eq using r g b by simp
qed

lemma getContrastRatio_commute: "getContrastRatio A B = getContrastRatio B A"
  by (simp add: getContrastRatio_def Let_def max.commute min.commute)

lemma getContrastRatio_range: "1 \<le> getContrastRatio A B \<and> getContrastRatio A B \<le> 21"
proof -
  define x where "x = getLuminance A"
  define y where "y = getLuminance B"
  have x: "0 \<le> x" "x \<le> 1" using getLuminance_range [of A] by (simp_all add: x_def)
  have y: "0 \<le> y" "y \<le> 1" using getLuminance_range [of B] by (simp_all add: y_def)
  have eq: "getContrastRatio A B = (max x y + 0.05) / (min x y + 0.05)"
    by (simp add: getContrastRatio_def Let_def x_def y_def)
  have pos: "0 < min x y + 0.05" using x y by simp
  have "1 \<le> (max x y + 0.05) / (min x y + 0.05)"
    using pos by (simp add: le_divide_eq)
  moreover have "(max x y + 0.05) / (min x y + 0.05) \<le> 21"
    using pos x y by (simp add: divide_le_eq)
  ultimately show ?thesis unfolding eq by simp
qed

lemma getLuminance_invalid: "\<not> isValidHex str \<Longrightarrow> getLuminance str = 0"
  by (cases "HEX_REGEX_exec str") (auto simp: isValidHex_def getLuminance_def)

lemma parseInt16_FF: "parseInt16 ''FF'' = 255"
  by (simp add: parseInt16_def hexDigit_def hexVal_def)

lemma parseInt16_01: "parseInt16 ''01'' = 1"
  by (simp add: parseInt16_def hexDigit_def hexVal_def)

lemma getLuminance_white: "getLuminance ''#FFFFFF'' = 1"
  by (simp add: getLuminance_def HEX_REGEX_exec_def hexDigit_def getLuminance_channel_def parseInt16_FF)

lemma getLuminance_black: "getLuminance ''#010101'' = 5 / 16473"
  by (simp add: getLuminance_def HEX_REGEX_exec_def hexDigit_def getLuminance_channel_def parseInt16_01)

lemma getContrastRatio_white_invalid:
  "\<not> isValidHex str \<Longrightarrow> getContrastRatio ''#FFFFFF'' str = 21"
  by (simp add: getContrastRatio_def getLuminance_invalid getLuminance_white)

lemma getContrastRatio_black_invalid:
  "\<not> isValidHex str \<Longrightarrow> getContrastRatio ''#010101'' str = 16573 / 16473"
  by (simp add: getContrastRatio_def getLuminance_invalid getLuminance_black)

lemma getContrastTextColor_invalid:
  "\<not> isValidHex str \<Longrightarrow> getContrastTextColor str = Inr ''#FFFFFF''"
  by (simp add: getContrastTextColor_def getContrastRatio_white_invalid getContrastRatio_black_invalid)

lemma getContrastTextColor_total: "\<exists>c. getContrastTextColor str = Inr c"
  by (simp add: getContrastTextColor_def Let_def)

lemma not_valid_xyz: "\<not> isValidHex ''xyz''"
  by (simp add: isValidHex_def HEX_REGEX_exec_def)

lemma powr_12_5_power: "0 < x \<Longrightarrow> (x powr 2.4) ^ 5 = x ^ 12" for x :: real
proof -
  assume x: "0 < x"
  have "(x powr 2.4) ^ 5 = (x powr 2.4) powr (real 5)"
    by (rule powr_realpow [symmetric]) (use x in simp)
  also have "\<dots> = x powr 12" by (simp add: powr_powr)
  also have "\<dots> = x ^ 12" using powr_realpow [OF x, of 12] by simp
  finally show ?thesis .
qed

lemma powr_12_5_lower:
  fixes x a :: real
  assumes "0 < x" "0 \<le> a" "a ^ 5 \<le> x ^ 12"
  shows "a \<le> x powr 2.4"
proof (rule power_le_imp_le_base [of a 4])
  show "a ^ Suc 4 \<le> (x powr 2.4) ^ Suc 4"
    using assms powr_12_5_power [of x] by simp
  show "0 \<le> x powr 2.4" by simp
qed

lemma powr_12_5_upper:
  fixes x b :: real
  assumes "0 < x" "0 \<le> b" "x ^ 12 \<le> b ^ 5"
  shows "x powr 2.4 \<le> b"
proof (rule power_le_imp_le_base [of _ 4])
  show "(x powr 2.4) ^ Suc 4 \<le> b ^ Suc 4"
    using assms powr_12_5_power [of x] by simp
  show "0 \<le> b" by fact
qed

lemma parseInt16_76: "parseInt16 ''76'' = 118"
  by (simp add: parseInt16_def hexDigit_def hexVal_def)

lemma getLuminance_767676: "getLuminance ''#767676'' = (5281 / 10761) powr 2.4"
  by (simp add: getLuminance_def HEX_REGEX_exec_def hexDigit_def getLuminance_channel_def parseInt16_76)

lemma getLuminance_767676_bounds:
  "0.18 \<le> getLuminance ''#767676'' \<and> getLuminance ''#767676'' \<le> 0.183"
proof -
  have "(0.18 :: real) \<le> (5281 / 10761) powr 2.4"
    by (rule powr_12_5_lower) (simp_all add: power_divide)
  moreover have "(5281 / 10761) powr 2.4 \<le> (0.183 :: real)"
    by (rule powr_12_5_upper) (simp_all add: power_divide)
  ultimately show ?thesis by (simp only: getLuminance_767676)
qed

lemma valid_767676: "isValidHex ''#767676''"
  by (simp add: isValidHex_def HEX_REGEX_exec_def hexDigit_def)

lemma ratios_767676:
  "getContrastRatio ''#010101'' ''#767676'' \<ge> 4.5"
  "getContrastRatio ''#FFFFFF'' ''#767676'' \<ge> 4.5"
  "getContrastRatio ''#010101'' ''#767676'' \<ge> getContrastRatio ''#FFFFFF'' ''#767676''"
proof -
  define x where "x = getLuminance ''#767676''"
  have x: "0.18 \<le> x" "x \<le> 0.183" using getLuminance_767676_bounds by (simp_all add: x_def)
  have b: "getContrastRatio ''#010101'' ''#767676'' = (x + 0.05) / (5 / 16473 + 0.05)"
    using x by (simp add: getContrastRatio_def getLuminance_black x_def [symmetric] max_def min_def)
  have w: "getContrastRatio ''#FFFFFF'' ''#767676'' = 1.05 / (x + 0.05)"
    using x by (simp add: getContrastRatio_def getLuminance_white x_def [symmetric] max_def min_def)
  show "getContrastRatio ''#010101'' ''#767676'' \<ge> 4.5"
    unfolding b using x by (simp add: field_simps)
  show "getContrastRatio ''#FFFFFF'' ''#767676'' \<ge> 4.5"
    unfolding w using x by (simp add: field_simps)
  have "1.05 * (5 / 16473 + 0.05) \<le> (0.18 + 0.05) * (0.18 + 0.05 :: real)" by simp
  also have "\<dots> \<le> (x + 0.05) * (x + 0.05)"
    by (rule mult_mono) (use x in simp_all)
  finally have "1.05 * (5 / 16473 + 0.05) \<le> (x + 0.05) * (x + 0.05)" .
  then have "1.05 / (x + 0.05) \<le> (x + 0.05) / (5 / 16473 + 0.05)"
    using x by (simp add: field_simps)
  then show "getContrastRatio ''#010101'' ''#767676'' \<ge> getContrastRatio ''#FFFFFF'' ''#767676''"
    unfolding b w .
qed

lemma hexToHSL_invalid:
  "\<not> isValidHex str \<Longrightarrow> hexToHSL str = Inl (Error (''Invalid hex color: '' @ str))"
  by (cases "HEX_REGEX_exec str") (auto simp: isValidHex_def hexToHSL_def)

section \<open>Rounding errors of the conversions\<close>

text \<open>
  Every intermediate value of the conversions is below 1024 in absolute value, so
  each rounding moves it by at most \<open>2 ^ -43\<close>, which is below \<open>10 ^ -12\<close>.
\<close>

lemma fl_err:
  assumes "\<bar>x\<bar> \<le> 1024"
  shows "\<bar>fl x - x\<bar> \<le> 1 / 1000000000000"
proof -
  have "\<bar>x\<bar> \<le> 2 ^ 10" using assms by simp
  from fl_error_pow [OF this] have "\<bar>fl x - x\<bar> \<le> 2 ^ 10 / 2 ^ 53" .
  also have "\<dots> \<le> 1 / 1000000000000" by simp
  finally show ?thesis .
qed

lemma fl_max: "fl (max x y) = max (fl x) (fl y)"
  by (metis fl_mono max.absorb1 max.absorb2 linear)

lemma fl_min: "fl (min x y) = min (fl x) (fl y)"
  by (metis fl_mono min.absorb1 min.absorb2 linear)

lemma fl_unit: "0 \<le> x \<Longrightarrow> x \<le> 1 \<Longrightarrow> 0 \<le> fl x \<and> fl x \<le> 1"
  using fl_mono [of 0 x] fl_mono [of x 1] by (simp add: fl_0 fl_numerals)

subsection \<open>The channels of a byte\<close>

lemma byte_fraction_fl_less:
  assumes "i < j" "j \<le> 255"
  shows "fl (real i / 255) < fl (real j / 255)"
proof -
  have "real i + 1 \<le> real j" using assms by linarith
  then have s: "real i / 255 + 1 / 255 \<le> real j / 255" by (simp add: field_simps)
  have "\<bar>real i / 255\<bar> \<le> 1024" "\<bar>real j / 255\<bar> \<le> 1024" using assms by simp_all
  from fl_err [OF this(1)] fl_err [OF this(2)] s show ?thesis by linarith
qed

lemma byte_fraction_fl_less_iff:
  assumes "i \<le> 255" "j \<le> 255"
  shows "fl (real i / 255) < fl (real j / 255) \<longleftrightarrow> i < j"
proof
  assume "i < j"
  then show "fl (real i / 255) < fl (real j / 255)" using assms by (intro byte_fraction_fl_less)
next
  assume a: "fl (real i / 255) < fl (real j / 255)"
  show "i < j"
  proof (rule ccontr)
    assume "\<not> i < j"
    then have "real j / 255 \<le> real i / 255" by (simp add: field_simps)
    from fl_mono [OF this] a show False by simp
  qed
qed

lemma byte_fraction_fl_eq_iff:
  assumes "i \<le> 255" "j \<le> 255"
  shows "fl (real i / 255) = fl (real j / 255) \<longleftrightarrow> i = j"
  using byte_fraction_fl_less_iff [OF assms] byte_fraction_fl_less_iff [OF assms(2,1)]
  by (metis less_irrefl nat_neq_iff)

lemma byte_fraction_max:
  "max (max (real i / 255) (real j / 255)) (real k / 255) = real (max (max i j) k) / 255"
  by (simp add: max_def)

lemma byte_fraction_min:
  "min (min (real i / 255) (real j / 255)) (real k / 255) = real (min (min i j) k) / 255"
  by (simp add: min_def)

lemma byte_fraction_fl_max:
  "max (max (fl (real i / 255)) (fl (real j / 255))) (fl (real k / 255))
     = fl (real (max (max i j) k) / 255)"
  by (simp only: fl_max [symmetric] byte_fraction_max)

lemma byte_fraction_fl_min:
  "min (min (fl (real i / 255)) (fl (real j / 255))) (fl (real k / 255))
     = fl (real (min (min i j) k) / 255)"
  by (simp only: fl_min [symmetric] byte_fraction_min)

subsection \<open>A quotient of nearby numbers\<close>

lemma quotient_close:
  fixes n d n' d' \<alpha> :: real
  assumes n: "\<bar>n' - n\<bar> \<le> \<alpha>" and d: "\<bar>d' - d\<bar> \<le> \<alpha>"
    and nd: "\<bar>n\<bar> \<le> d" and d0: "1 / 255 \<le> d" and a: "\<alpha> \<le> 1 / 1000000"
  shows "\<bar>n' / d' - n / d\<bar> \<le> 512 * \<alpha>"
proof -
  define q where "q = n / d"
  have dpos: "0 < d" using d0 by simp
  have q: "\<bar>q\<bar> \<le> 1" using nd dpos by (simp add: q_def)
  have nq: "n = q * d" using dpos by (simp add: q_def)
  have a0: "0 \<le> \<alpha>" using n by linarith
  have d': "1 / 256 \<le> d'" using d d0 a by linarith
  then have d'pos: "0 < d'" by simp
  have "\<bar>q * (d' - d)\<bar> \<le> 1 * \<alpha>"
    unfolding abs_mult by (rule mult_mono) (use q d in simp_all)
  moreover have "n' - q * d' = (n' - n) - q * (d' - d)"
    by (simp add: nq algebra_simps)
  ultimately have num: "\<bar>n' - q * d'\<bar> \<le> 2 * \<alpha>" using n by linarith
  have "n' / d' - q = (n' - q * d') / d'" using d'pos by (simp add: field_simps)
  then have "\<bar>n' / d' - q\<bar> = \<bar>n' - q * d'\<bar> / d'" using d'pos by simp
  also have "\<dots> \<le> 2 * \<alpha> / d'" using num d'pos by (simp add: divide_right_mono)
  also have "\<dots> \<le> 2 * \<alpha> / (1 / 256)"
    by (rule divide_left_mono) (use a0 d' in simp_all)
  finally show ?thesis by (simp add: q_def)
qed

subsection \<open>The locals of \<open>hexToHSL\<close> against exact arithmetic\<close>

lemma byte_fraction_err:
  assumes "k \<le> 255"
  shows "\<bar>fl (real k / 255) - real k / 255\<bar> \<le> 1 / 1000000000000"
    and "0 \<le> fl (real k / 255)" and "fl (real k / 255) \<le> 1"
proof -
  have u: "0 \<le> real k / 255" "real k / 255 \<le> 1" using assms by simp_all
  then show "\<bar>fl (real k / 255) - real k / 255\<bar> \<le> 1 / 1000000000000"
    by (intro fl_err) simp
  show "0 \<le> fl (real k / 255)" "fl (real k / 255) \<le> 1"
    using fl_unit [OF u] by simp_all
qed

lemma hexToHSL_l_close:
  assumes "R \<le> 255" "G \<le> 255" "B \<le> 255"
    and "Mx = max (max R G) B" and "Mn = min (min R G) B"
  shows "\<bar>hexToHSL_l (fl (real R / 255)) (fl (real G / 255)) (fl (real B / 255))
           - (real Mx / 255 + real Mn / 255) / 2\<bar> \<le> 3 / 1000000000000"
proof -
  have le: "Mx \<le> 255" "Mn \<le> 255" using assms by simp_all
  define M' where "M' = fl (real Mx / 255)"
  define m' where "m' = fl (real Mn / 255)"
  note eM = byte_fraction_err [OF le(1), folded M'_def]
  note em = byte_fraction_err [OF le(2), folded m'_def]
  define t where "t = fl (M' + m')"
  have "\<bar>M' + m'\<bar> \<le> 1024" using eM em by linarith
  from fl_err [OF this] have et: "\<bar>t - (M' + m')\<bar> \<le> 1 / 1000000000000" by (simp add: t_def)
  have "\<bar>t / 2\<bar> \<le> 1024" using et eM em by argo
  from fl_err [OF this] have "\<bar>fl (t / 2) - t / 2\<bar> \<le> 1 / 1000000000000" .
  with et eM em have "\<bar>fl (t / 2) - (real Mx / 255 + real Mn / 255) / 2\<bar> \<le> 3 / 1000000000000"
    by argo
  then show ?thesis
    unfolding hexToHSL_l_def byte_fraction_fl_max byte_fraction_fl_min assms(4,5) [symmetric]
      M'_def [symmetric] m'_def [symmetric] t_def [symmetric] .
qed

lemma sector_close:
  fixes x y d x' y' d' c :: real
  assumes x: "\<bar>x' - x\<bar> \<le> 1 / 1000000000000" and y: "\<bar>y' - y\<bar> \<le> 1 / 1000000000000"
    and d: "\<bar>d' - d\<bar> \<le> 3 / 1000000000000"
    and u: "0 \<le> x'" "x' \<le> 1" "0 \<le> y'" "y' \<le> 1"
    and xy: "\<bar>x - y\<bar> \<le> d" and d0: "1 / 255 \<le> d" and c: "0 \<le> c" "c \<le> 6"
  shows "\<bar>fl (fl (fl (fl (x' - y') / d') + c) / 6) - ((x - y) / d + c) / 6\<bar> \<le> 3 / 10000000000"
proof -
  define n' where "n' = fl (x' - y')"
  have "\<bar>x' - y'\<bar> \<le> 1024" using u by linarith
  from fl_err [OF this] have n: "\<bar>n' - (x - y)\<bar> \<le> 3 / 1000000000000"
    using x y unfolding n'_def by argo
  define q where "q = (x - y) / d"
  have q1: "\<bar>q\<bar> \<le> 1" using xy d0 by (simp add: q_def)
  have "\<bar>n' / d' - (x - y) / d\<bar> \<le> 512 * (3 / 1000000000000)"
    by (rule quotient_close [OF n d xy d0]) simp
  then have e1: "\<bar>n' / d' - q\<bar> \<le> 1536 / 1000000000000" by (simp add: q_def)
  define q' where "q' = fl (n' / d')"
  have "\<bar>n' / d'\<bar> \<le> 1024" using e1 q1 by linarith
  from fl_err [OF this] have e2: "\<bar>q' - q\<bar> \<le> 1537 / 1000000000000"
    using e1 unfolding q'_def by linarith
  define t' where "t' = fl (q' + c)"
  have "\<bar>q' + c\<bar> \<le> 1024" using e2 q1 c by linarith
  from fl_err [OF this] have e3: "\<bar>t' - (q + c)\<bar> \<le> 1538 / 1000000000000"
    using e2 unfolding t'_def by linarith
  have "\<bar>t' / 6\<bar> \<le> 1024" using e3 q1 c by argo
  from fl_err [OF this] have "\<bar>fl (t' / 6) - (q + c) / 6\<bar> \<le> 3 / 10000000000"
    using e3 by argo
  then show ?thesis
    unfolding n'_def [symmetric] q'_def [symmetric] t'_def [symmetric] q_def [symmetric] .
qed

lemma byte_spread:
  fixes R G B :: nat
  assumes "Mx = max (max R G) B" and "Mn = min (min R G) B" and "Mx \<noteq> Mn"
  shows "1 / 255 \<le> real Mx / 255 - real Mn / 255"
    and "\<bar>real G / 255 - real B / 255\<bar> \<le> real Mx / 255 - real Mn / 255"
    and "\<bar>real B / 255 - real R / 255\<bar> \<le> real Mx / 255 - real Mn / 255"
    and "\<bar>real R / 255 - real G / 255\<bar> \<le> real Mx / 255 - real Mn / 255"
proof -
  have o: "Mn \<le> R" "Mn \<le> G" "Mn \<le> B" "R \<le> Mx" "G \<le> Mx" "B \<le> Mx"
    by (simp_all add: assms(1,2))
  then have "Mn < Mx" using assms(3) by linarith
  then have "real Mn + 1 \<le> real Mx" by linarith
  then show "1 / 255 \<le> real Mx / 255 - real Mn / 255" by argo
  have r: "real Mn \<le> real R" "real Mn \<le> real G" "real Mn \<le> real B"
    "real R \<le> real Mx" "real G \<le> real Mx" "real B \<le> real Mx"
    using o by simp_all
  show "\<bar>real G / 255 - real B / 255\<bar> \<le> real Mx / 255 - real Mn / 255"
    "\<bar>real B / 255 - real R / 255\<bar> \<le> real Mx / 255 - real Mn / 255"
    "\<bar>real R / 255 - real G / 255\<bar> \<le> real Mx / 255 - real Mn / 255"
    using r by argo+
qed

lemma spread_close:
  assumes "Mx \<le> 255" "Mn \<le> 255"
  shows "\<bar>fl (fl (real Mx / 255) - fl (real Mn / 255)) - (real Mx / 255 - real Mn / 255)\<bar>
      \<le> 3 / 1000000000000"
proof -
  note a = byte_fraction_err [OF assms(1)] and b = byte_fraction_err [OF assms(2)]
  have "\<bar>fl (real Mx / 255) - fl (real Mn / 255)\<bar> \<le> 1024" using a b by argo
  from fl_err [OF this] a b show ?thesis by argo
qed

lemma hexToHSL_h_close:
  assumes le: "R \<le> 255" "G \<le> 255" "B \<le> 255"
  shows "\<bar>hexToHSL_h (fl (real R / 255)) (fl (real G / 255)) (fl (real B / 255))
           - hexToHSL_hue (real R / 255) (real G / 255) (real B / 255)\<bar> \<le> 3 / 10000000000"
proof -
  define Mx where "Mx = max (max R G) B"
  define Mn where "Mn = min (min R G) B"
  have mle: "Mx \<le> 255" "Mn \<le> 255" using le by (simp_all add: Mx_def Mn_def)
  define d' where "d' = fl (fl (real Mx / 255) - fl (real Mn / 255))"
  define d where "d = real Mx / 255 - real Mn / 255"
  have fp: "hexToHSL_h (fl (real R / 255)) (fl (real G / 255)) (fl (real B / 255)) =
      (if Mx \<noteq> Mn then
         (if Mx = R
          then fl (fl (fl (fl (fl (real G / 255) - fl (real B / 255)) / d') + (if G < B then 6 else 0)) / 6)
          else if Mx = G then fl (fl (fl (fl (fl (real B / 255) - fl (real R / 255)) / d') + 2) / 6)
          else if Mx = B then fl (fl (fl (fl (fl (real R / 255) - fl (real G / 255)) / d') + 4) / 6)
          else 0)
       else 0)"
    unfolding hexToHSL_h_def Let_def byte_fraction_fl_max byte_fraction_fl_min
      Mx_def [symmetric] Mn_def [symmetric] d'_def [symmetric]
    by (simp only: byte_fraction_fl_eq_iff [OF mle(1) mle(2)] byte_fraction_fl_eq_iff [OF mle(1) le(1)]
        byte_fraction_fl_eq_iff [OF mle(1) le(2)] byte_fraction_fl_eq_iff [OF mle(1) le(3)]
        byte_fraction_fl_less_iff [OF le(2) le(3)])
  have ex: "hexToHSL_hue (real R / 255) (real G / 255) (real B / 255) =
      (if Mx \<noteq> Mn then
         (if Mx = R
          then ((real G / 255 - real B / 255) / d + (if G < B then 6 else 0)) / 6
          else if Mx = G then ((real B / 255 - real R / 255) / d + 2) / 6
          else if Mx = B then ((real R / 255 - real G / 255) / d + 4) / 6
          else 0)
       else 0)"
    unfolding hexToHSL_hue_def Let_def byte_fraction_max byte_fraction_min
      Mx_def [symmetric] Mn_def [symmetric] d_def [symmetric]
    by simp
  show ?thesis
  proof (cases "Mx = Mn")
    case True
    then show ?thesis by (simp add: fp ex)
  next
    case False
    note sp = byte_spread [OF Mx_def Mn_def False, folded d_def]
    have dd: "\<bar>d' - d\<bar> \<le> 3 / 1000000000000"
      unfolding d'_def d_def by (rule spread_close [OF mle])
    note eR = byte_fraction_err [OF le(1)] and eG = byte_fraction_err [OF le(2)]
      and eB = byte_fraction_err [OF le(3)]
    have c6: "0 \<le> (if G < B then 6 else 0 :: real)" "(if G < B then 6 else 0 :: real) \<le> 6"
      by simp_all
    have 1: "\<bar>fl (fl (fl (fl (fl (real G / 255) - fl (real B / 255)) / d') + (if G < B then 6 else 0)) / 6)
        - ((real G / 255 - real B / 255) / d + (if G < B then 6 else 0)) / 6\<bar> \<le> 3 / 10000000000"
      by (rule sector_close [OF eG(1) eB(1) dd eG(2,3) eB(2,3) sp(2) sp(1) c6])
    have 2: "\<bar>fl (fl (fl (fl (fl (real B / 255) - fl (real R / 255)) / d') + 2) / 6)
        - ((real B / 255 - real R / 255) / d + 2) / 6\<bar> \<le> 3 / 10000000000"
      by (rule sector_close [OF eB(1) eR(1) dd eB(2,3) eR(2,3) sp(3) sp(1)]) simp_all
    have 3: "\<bar>fl (fl (fl (fl (fl (real R / 255) - fl (real G / 255)) / d') + 4) / 6)
        - ((real R / 255 - real G / 255) / d + 4) / 6\<bar> \<le> 3 / 10000000000"
      by (rule sector_close [OF eR(1) eG(1) dd eR(2,3) eG(2,3) sp(4) sp(1)]) simp_all
    consider (r) "Mx = R" | (g) "Mx \<noteq> R" "Mx = G" | (b) "Mx \<noteq> R" "Mx \<noteq> G" "Mx = B"
      | (n) "Mx \<noteq> R" "Mx \<noteq> G" "Mx \<noteq> B" by blast
    then show ?thesis
    proof cases
      case r
      with False 1 show ?thesis by (simp add: fp ex)
    next
      case g
      with False 2 show ?thesis by (simp add: fp ex)
    next
      case b
      with False 3 show ?thesis by (simp add: fp ex)
    next
      case n
      with False show ?thesis by (simp add: fp ex)
    qed
  qed
qed

lemma hexToHSL_s_close:
  assumes le: "R \<le> 255" "G \<le> 255" "B \<le> 255"
  shows "\<bar>hexToHSL_s (fl (real R / 255)) (fl (real G / 255)) (fl (real B / 255))
           - hexToHSL_sat (real R / 255) (real G / 255) (real B / 255)\<bar> \<le> 2 / 100000000"
proof -
  define Mx where "Mx = max (max R G) B"
  define Mn where "Mn = min (min R G) B"
  have mle: "Mx \<le> 255" "Mn \<le> 255" using le by (simp_all add: Mx_def Mn_def)
  define M' where "M' = fl (real Mx / 255)"
  define m' where "m' = fl (real Mn / 255)"
  define M where "M = real Mx / 255"
  define m where "m = real Mn / 255"
  define d' where "d' = fl (M' - m')"
  define d where "d = M - m"
  define l' where "l' = hexToHSL_l (fl (real R / 255)) (fl (real G / 255)) (fl (real B / 255))"
  define A' where "A' = fl (fl (2 - M') - m')"
  define B' where "B' = fl (M' + m')"
  note eM = byte_fraction_err [OF mle(1), folded M'_def M_def]
  note em = byte_fraction_err [OF mle(2), folded m'_def m_def]
  have el: "\<bar>l' - (M + m) / 2\<bar> \<le> 3 / 1000000000000"
    unfolding l'_def M_def m_def by (rule hexToHSL_l_close [OF le Mx_def Mn_def])
  have fp: "hexToHSL_s (fl (real R / 255)) (fl (real G / 255)) (fl (real B / 255)) =
      (if Mx \<noteq> Mn then (if l' > 1 / 2 then fl (d' / A') else fl (d' / B')) else 0)"
    unfolding hexToHSL_s_def Let_def byte_fraction_fl_max byte_fraction_fl_min
      Mx_def [symmetric] Mn_def [symmetric] l'_def [symmetric] M'_def [symmetric] m'_def [symmetric]
      d'_def [symmetric] A'_def [symmetric] B'_def [symmetric]
    by (simp only: byte_fraction_fl_eq_iff [OF mle(1) mle(2), folded M'_def m'_def])
  have ex: "hexToHSL_sat (real R / 255) (real G / 255) (real B / 255) =
      (if Mx \<noteq> Mn then (if (M + m) / 2 > 1 / 2 then d / (2 - M - m) else d / (M + m)) else 0)"
    unfolding hexToHSL_sat_def Let_def byte_fraction_max byte_fraction_min
      Mx_def [symmetric] Mn_def [symmetric] M_def [symmetric] m_def [symmetric] d_def [symmetric]
    by (simp add: M_def m_def)
  show ?thesis
  proof (cases "Mx = Mn")
    case True
    then show ?thesis by (simp add: fp ex)
  next
    case False
    have "Mn \<le> Mx" by (simp add: Mx_def Mn_def)
    with False have lt: "Mn < Mx" by simp
    then have "real Mn + 1 \<le> real Mx" by linarith
    then have mM1: "m + 1 / 255 \<le> M" unfolding M_def m_def by argo
    have mM2: "0 \<le> m" by (simp add: m_def)
    have mM3: "M \<le> 1" using mle by (simp add: M_def)
    note mM = mM1 mM2 mM3
    have dd: "\<bar>d' - d\<bar> \<le> 20 / 1000000000000"
      using spread_close [OF mle] unfolding d'_def d_def M'_def m'_def M_def m_def by argo
    have "\<bar>2 - M'\<bar> \<le> 1024" using eM by argo
    note e1 = fl_err [OF this]
    have "\<bar>fl (2 - M') - m'\<bar> \<le> 1024" using e1 eM em by argo
    from fl_err [OF this] e1 eM em have eA: "\<bar>A' - (2 - M - m)\<bar> \<le> 4 / 1000000000000"
      unfolding A'_def by argo
    have "\<bar>M' + m'\<bar> \<le> 1024" using eM em by argo
    from fl_err [OF this] eM em have eB: "\<bar>B' - (M + m)\<bar> \<le> 3 / 1000000000000"
      unfolding B'_def by argo
    define D where "D = (if (M + m) / 2 > 1 / 2 then 2 - M - m else M + m)"
    define D' where "D' = (if l' > 1 / 2 then A' else B')"
    have DD: "\<bar>D' - D\<bar> \<le> 20 / 1000000000000"
      unfolding D_def D'_def using el eA eB by (auto split: if_splits; argo)
    have dD: "\<bar>d\<bar> \<le> D"
      unfolding D_def d_def using mM by (auto split: if_splits; argo)
    have D0: "1 / 255 \<le> D"
      unfolding D_def using mM by (auto split: if_splits; argo)
    have q: "\<bar>d' / D' - d / D\<bar> \<le> 512 * (20 / 1000000000000)"
      by (rule quotient_close [OF dd DD dD D0]) simp
    have "\<bar>d / D\<bar> \<le> 1" using dD D0 by simp
    with q have "\<bar>d' / D'\<bar> \<le> 1024" by argo
    from fl_err [OF this] q have "\<bar>fl (d' / D') - d / D\<bar> \<le> 2 / 100000000" by argo
    moreover have "hexToHSL_s (fl (real R / 255)) (fl (real G / 255)) (fl (real B / 255)) = fl (d' / D')"
      using False by (simp add: fp D'_def)
    moreover have "hexToHSL_sat (real R / 255) (real G / 255) (real B / 255) = d / D"
      using False by (simp add: ex D_def)
    ultimately show ?thesis by simp
  qed
qed

section \<open>Exact arithmetic: ranges, the wave and the inverse of the hue\<close>

lemma byte_string:
  assumes "0 \<le> z" "z \<le> 255"
  shows "padStart 2 (CHR ''0'') (toString16 z) = [digitChar (nat z div 16), digitChar (nat z mod 16)]"
  using toHexDigits_byte [of "nat z"] assms by simp

lemma HEX_REGEX_exec_of_bytes:
  assumes "R < 256" "G < 256" "B < 256"
  shows "HEX_REGEX_exec (CHR ''#'' # [digitChar (R div 16), digitChar (R mod 16),
      digitChar (G div 16), digitChar (G mod 16), digitChar (B div 16), digitChar (B mod 16)])
    = Some ([digitChar (R div 16), digitChar (R mod 16)],
            [digitChar (G div 16), digitChar (G mod 16)],
            [digitChar (B div 16), digitChar (B mod 16)])"
  using assms by (intro HEX_REGEX_exec_bytes) simp_all

lemma case_if_pair:
  "(case (if P then (x, y) else (u, v)) of (a, b) \<Rightarrow> F a b) = F (if P then x else u) (if P then y else v)"
  by simp

lemma hexChannels_valid:
  assumes "isValidHex hex"
  obtains R G B where "hexChannels hex = Some (R, G, B)" "R \<le> 255" "G \<le> 255" "B \<le> 255"
proof -
  from assms obtain c1 c2 c3 where e: "HEX_REGEX_exec hex = Some (c1, c2, c3)"
    by (cases "HEX_REGEX_exec hex") (auto simp: isValidHex_def)
  from HEX_REGEX_exec_groups [OF e] have "parseInt16 c1 \<le> 255" "parseInt16 c2 \<le> 255" "parseInt16 c3 \<le> 255"
    by (simp_all add: parseInt16_le)
  moreover have "hexChannels hex = Some (parseInt16 c1, parseInt16 c2, parseInt16 c3)"
    by (simp add: hexChannels_def e)
  ultimately show thesis by (rule that [rotated])
qed

lemma Math_round_between:
  assumes "of_int a \<le> x" "x \<le> of_int b"
  shows "a \<le> Math_round x \<and> Math_round x \<le> b"
proof -
  have "of_int a \<le> x + 1 / 2" using assms by simp
  then have "a \<le> \<lfloor>x + 1 / 2\<rfloor>" by (simp add: le_floor_iff)
  moreover have "x + 1 / 2 < of_int (b + 1)" using assms by simp
  then have "\<lfloor>x + 1 / 2\<rfloor> < b + 1" by (simp only: floor_less_iff)
  ultimately show ?thesis by (simp add: Math_round_def)
qed

lemma ratio_bounds:
  fixes x d :: real
  assumes "0 < d" "- d \<le> x" "x \<le> d"
  shows "- 1 \<le> x / d" "x / d \<le> 1"
  using assms by (simp_all add: le_divide_eq divide_le_eq)

lemma hexToHSL_hue_range: "0 \<le> hexToHSL_hue r g b \<and> hexToHSL_hue r g b \<le> 1"
proof -
  define cmax where "cmax = max (max r g) b"
  define cmin where "cmin = min (min r g) b"
  define d where "d = cmax - cmin"
  have mm: "cmin \<le> r" "cmin \<le> g" "cmin \<le> b" "r \<le> cmax" "g \<le> cmax" "b \<le> cmax"
    by (simp_all add: cmax_def cmin_def)
  show ?thesis
  proof (cases "cmax = cmin")
    case True
    then show ?thesis unfolding hexToHSL_hue_def Let_def cmax_def cmin_def
      by (simp only: if_False simp_thms) simp
  next
    case False
    with mm have d: "0 < d" by (simp add: d_def)
    have gb: "- 1 \<le> (g - b) / d" "(g - b) / d \<le> 1"
      by (rule ratio_bounds [OF d]; use mm in \<open>simp add: d_def\<close>)+
    have br: "- 1 \<le> (b - r) / d" "(b - r) / d \<le> 1"
      by (rule ratio_bounds [OF d]; use mm in \<open>simp add: d_def\<close>)+
    have rg: "- 1 \<le> (r - g) / d" "(r - g) / d \<le> 1"
      by (rule ratio_bounds [OF d]; use mm in \<open>simp add: d_def\<close>)+
    have gb0: "0 \<le> (g - b) / d" if "\<not> g < b"
      using that d by simp
    have gb1: "(g - b) / d \<le> 0" if "g < b"
      using that d by (simp add: divide_le_0_iff)
    have eq: "hexToHSL_hue r g b =
        (if cmax = r then ((g - b) / d + (if g < b then 6 else 0)) / 6
         else if cmax = g then ((b - r) / d + 2) / 6
         else if cmax = b then ((r - g) / d + 4) / 6
         else 0)"
      using False unfolding hexToHSL_hue_def Let_def d_def cmax_def cmin_def
      by (simp only: if_True simp_thms)
    show ?thesis unfolding eq using gb br rg gb0 gb1 by (auto split: if_splits)
  qed
qed

lemma hexToHSL_sat_range:
  assumes "0 \<le> r" "r \<le> 1" "0 \<le> g" "g \<le> 1" "0 \<le> b" "b \<le> 1"
  shows "0 \<le> hexToHSL_sat r g b \<and> hexToHSL_sat r g b \<le> 1"
proof -
  define cmax where "cmax = max (max r g) b"
  define cmin where "cmin = min (min r g) b"
  have mm: "cmin \<le> cmax" "0 \<le> cmin" "cmax \<le> 1"
    using assms by (auto simp: cmax_def cmin_def)
  show ?thesis
  proof (cases "cmax = cmin")
    case True
    then show ?thesis unfolding hexToHSL_sat_def Let_def cmax_def cmin_def
      by (simp only: if_False simp_thms) simp
  next
    case False
    with mm have d: "0 < cmax - cmin" by simp
    have eq: "hexToHSL_sat r g b =
        (if (cmax + cmin) / 2 > 1 / 2 then (cmax - cmin) / (2 - cmax - cmin)
         else (cmax - cmin) / (cmax + cmin))"
      using False unfolding hexToHSL_sat_def Let_def cmax_def cmin_def
      by (simp only: if_True simp_thms)
    show ?thesis
    proof (cases "(cmax + cmin) / 2 > 1 / 2")
      case True
      then have p: "0 < 2 - cmax - cmin" using mm d by linarith
      show ?thesis unfolding eq using True p d mm
        by (simp add: divide_le_eq)
    next
      case False
      have p: "0 < cmax + cmin" using mm d by linarith
      show ?thesis unfolding eq using False p d mm
        by (simp add: divide_le_eq)
    qed
  qed
qed

lemma js_rem_12_low: "0 \<le> y \<Longrightarrow> y < 12 \<Longrightarrow> js_rem y 12 = y"
proof -
  assume a: "0 \<le> y" "y < 12"
  then have "\<lfloor>y / 12\<rfloor> = 0" by (simp add: floor_eq_iff)
  with a show ?thesis by (simp add: js_rem_def)
qed

lemma js_rem_12_high: "12 \<le> y \<Longrightarrow> y < 24 \<Longrightarrow> js_rem y 12 = y - 12"
proof -
  assume a: "12 \<le> y" "y < 24"
  then have "\<lfloor>y / 12\<rfloor> = 1" by (simp add: floor_eq_iff)
  with a show ?thesis by (simp add: js_rem_def)
qed

lemma hslToHex_wave_low:
  "0 \<le> y \<Longrightarrow> y < 12 \<Longrightarrow> hslToHex_wave y = max (min (min (y - 3) (9 - y)) 1) (- 1)"
  by (simp add: hslToHex_wave_def js_rem_12_low)

lemma hslToHex_wave_high:
  "12 \<le> y \<Longrightarrow> y < 24 \<Longrightarrow> hslToHex_wave y = max (min (min (y - 15) (21 - y)) 1) (- 1)"
  by (simp add: hslToHex_wave_def js_rem_12_high)

lemma hslToHex_wave_range: "- 1 \<le> hslToHex_wave y \<and> hslToHex_wave y \<le> 1"
  by (simp add: hslToHex_wave_def Let_def)

lemma hslToHex_wave_extremes:
  assumes "0 \<le> x" "x \<le> 12"
  shows "(hslToHex_wave (0 + x) = 1 \<or> hslToHex_wave (8 + x) = 1 \<or> hslToHex_wave (4 + x) = 1)
       \<and> (hslToHex_wave (0 + x) = - 1 \<or> hslToHex_wave (8 + x) = - 1 \<or> hslToHex_wave (4 + x) = - 1)"
proof -
  consider "x \<le> 2" | "2 < x" "x < 4" | "4 \<le> x" "x \<le> 6" | "6 < x" "x < 8"
    | "8 \<le> x" "x \<le> 10" | "10 < x" "x < 12" | "x = 12"
    using assms by linarith
  then show ?thesis
  proof cases
    case 1
    then have "hslToHex_wave (0 + x) = - 1" "hslToHex_wave (4 + x) = 1"
      using assms by (simp_all add: hslToHex_wave_low)
    then show ?thesis by simp
  next
    case 2
    then have "hslToHex_wave (8 + x) = - 1" "hslToHex_wave (4 + x) = 1"
      using assms by (simp_all add: hslToHex_wave_low)
    then show ?thesis by simp
  next
    case 3
    then have "hslToHex_wave (8 + x) = - 1" "hslToHex_wave (0 + x) = 1"
      using assms by (simp_all add: hslToHex_wave_low hslToHex_wave_high)
    then show ?thesis by simp
  next
    case 4
    then have "hslToHex_wave (4 + x) = - 1" "hslToHex_wave (0 + x) = 1"
      using assms by (simp_all add: hslToHex_wave_low)
    then show ?thesis by simp
  next
    case 5
    then have "hslToHex_wave (4 + x) = - 1" "hslToHex_wave (8 + x) = 1"
      using assms by (simp_all add: hslToHex_wave_high)
    then show ?thesis by simp
  next
    case 6
    then have "hslToHex_wave (0 + x) = - 1" "hslToHex_wave (8 + x) = 1"
      using assms by (simp_all add: hslToHex_wave_low hslToHex_wave_high)
    then show ?thesis by simp
  next
    case 7
    then have "hslToHex_wave (0 + x) = - 1" "hslToHex_wave (8 + x) = 1"
      by (simp_all add: hslToHex_wave_high)
    then show ?thesis by simp
  qed
qed

lemma Math_round_mono: "x \<le> y \<Longrightarrow> Math_round x \<le> Math_round y"
  by (simp add: Math_round_def floor_mono)

lemma Math_round_bounds:
  "x - 1 / 2 < of_int (Math_round x) \<and> of_int (Math_round x) \<le> x + 1 / 2"
proof -
  have "of_int \<lfloor>x + 1 / 2\<rfloor> \<le> x + 1 / 2" "x + 1 / 2 < of_int \<lfloor>x + 1 / 2\<rfloor> + 1"
    by linarith+
  then show ?thesis unfolding Math_round_def by linarith
qed

lemma max3_eq:
  fixes x y z m :: real
  assumes "x \<le> m" "y \<le> m" "z \<le> m" "x = m \<or> y = m \<or> z = m"
  shows "max (max x y) z = m"
  using assms by auto

lemma min3_eq:
  fixes x y z m :: real
  assumes "m \<le> x" "m \<le> y" "m \<le> z" "x = m \<or> y = m \<or> z = m"
  shows "min (min x y) z = m"
  using assms by auto

lemma hslToHex_wave_pieces:
  "0 \<le> y \<Longrightarrow> y \<le> 2 \<Longrightarrow> hslToHex_wave y = - 1"
  "2 \<le> y \<Longrightarrow> y \<le> 4 \<Longrightarrow> hslToHex_wave y = y - 3"
  "4 \<le> y \<Longrightarrow> y \<le> 8 \<Longrightarrow> hslToHex_wave y = 1"
  "8 \<le> y \<Longrightarrow> y \<le> 10 \<Longrightarrow> hslToHex_wave y = 9 - y"
  "10 \<le> y \<Longrightarrow> y < 12 \<Longrightarrow> hslToHex_wave y = - 1"
  by (simp_all add: hslToHex_wave_low)

lemma hslToHex_wave_pieces_high:
  "12 \<le> y \<Longrightarrow> y \<le> 14 \<Longrightarrow> hslToHex_wave y = - 1"
  "14 \<le> y \<Longrightarrow> y \<le> 16 \<Longrightarrow> hslToHex_wave y = y - 15"
  "16 \<le> y \<Longrightarrow> y \<le> 20 \<Longrightarrow> hslToHex_wave y = 1"
  by (simp_all add: hslToHex_wave_high)

lemma clamp_lipschitz:
  fixes u v :: real
  shows "\<bar>max (min u 1) (- 1) - max (min v 1) (- 1)\<bar> \<le> \<bar>u - v\<bar>"
  by linarith

lemma tri_lipschitz:
  fixes y y' c :: real
  shows "\<bar>min (y' - c) (c + 6 - y') - min (y - c) (c + 6 - y)\<bar> \<le> \<bar>y' - y\<bar>"
  by linarith

lemma hslToHex_wave_tri:
  "0 \<le> y \<Longrightarrow> y < 12 \<Longrightarrow> hslToHex_wave y = max (min (min (y - 3) (3 + 6 - y)) 1) (- 1)"
  "12 \<le> y \<Longrightarrow> y < 24 \<Longrightarrow> hslToHex_wave y = max (min (min (y - 15) (15 + 6 - y)) 1) (- 1)"
  by (simp_all add: hslToHex_wave_low hslToHex_wave_high)

lemma clamp_tri_lipschitz:
  fixes y y' c c' :: real
  assumes "\<bar>min (y' - c') (c' + 6 - y') - min (y - c) (c + 6 - y)\<bar> \<le> y' - y"
  shows "\<bar>max (min (min (y' - c') (c' + 6 - y')) 1) (- 1) - max (min (min (y - c) (c + 6 - y)) 1) (- 1)\<bar>
      \<le> y' - y"
proof -
  define u where "u = min (y - c) (c + 6 - y)"
  define u' where "u' = min (y' - c') (c' + 6 - y')"
  have 1: "\<bar>u' - u\<bar> \<le> y' - y"
    using assms unfolding u_def u'_def .
  have "\<bar>max (min u' 1) (- 1) - max (min u 1) (- 1)\<bar> \<le> \<bar>u' - u\<bar>"
    by (rule clamp_lipschitz)
  then have "\<bar>max (min u' 1) (- 1) - max (min u 1) (- 1)\<bar> \<le> y' - y"
    using 1 by (rule order_trans)
  then show ?thesis unfolding u_def u'_def .
qed

lemma hslToHex_wave_lipschitz_le:
  assumes "0 \<le> y" "y \<le> y'" "y' < 24"
  shows "\<bar>hslToHex_wave y' - hslToHex_wave y\<bar> \<le> y' - y"
proof -
  consider "y' < 12" | "12 \<le> y" | "y < 12" "12 \<le> y'" by linarith
  then show ?thesis
  proof cases
    case 1
    with assms have e: "hslToHex_wave y = max (min (min (y - 3) (3 + 6 - y)) 1) (- 1)"
      "hslToHex_wave y' = max (min (min (y' - 3) (3 + 6 - y')) 1) (- 1)"
      by (simp_all only: hslToHex_wave_tri)
    have "\<bar>min (y' - 3) (3 + 6 - y') - min (y - 3) (3 + 6 - y)\<bar> \<le> \<bar>y' - y\<bar>"
      by (rule tri_lipschitz)
    also have "\<dots> = y' - y" using assms by simp
    finally show ?thesis unfolding e by (rule clamp_tri_lipschitz)
  next
    case 2
    with assms have e: "hslToHex_wave y = max (min (min (y - 15) (15 + 6 - y)) 1) (- 1)"
      "hslToHex_wave y' = max (min (min (y' - 15) (15 + 6 - y')) 1) (- 1)"
      by (simp_all only: hslToHex_wave_tri)
    have "\<bar>min (y' - 15) (15 + 6 - y') - min (y - 15) (15 + 6 - y)\<bar> \<le> \<bar>y' - y\<bar>"
      by (rule tri_lipschitz)
    also have "\<dots> = y' - y" using assms by simp
    finally show ?thesis unfolding e by (rule clamp_tri_lipschitz)
  next
    case 3
    with assms have e: "hslToHex_wave y = max (min (min (y - 3) (3 + 6 - y)) 1) (- 1)"
      "hslToHex_wave y' = max (min (min (y' - 15) (15 + 6 - y')) 1) (- 1)"
      by (simp_all only: hslToHex_wave_tri)
    define u where "u = min (y - 3) (3 + 6 - y)"
    define u' where "u' = min (y' - 15) (15 + 6 - y')"
    have m: "min (12 - 15) (15 + 6 - 12) = (- 3 :: real)" "min (12 - 3) (3 + 6 - 12) = (- 3 :: real)"
      by simp_all
    have 1: "\<bar>u' - (- 3)\<bar> \<le> \<bar>y' - 12\<bar>"
      using tri_lipschitz [of y' 15 12] by (simp only: m u'_def)
    have 2: "\<bar>(- 3) - u\<bar> \<le> \<bar>12 - y\<bar>"
      using tri_lipschitz [of 12 3 y] by (simp only: m u_def)
    have "\<bar>u' - u\<bar> \<le> y' - y" using 1 2 3 by linarith
    then show ?thesis unfolding e u_def u'_def by (rule clamp_tri_lipschitz)
  qed
qed

lemma hslToHex_wave_lipschitz:
  assumes "0 \<le> y" "y < 24" "0 \<le> y'" "y' < 24"
  shows "\<bar>hslToHex_wave y' - hslToHex_wave y\<bar> \<le> \<bar>y' - y\<bar>"
proof (cases "y \<le> y'")
  case True
  then show ?thesis using hslToHex_wave_lipschitz_le [of y y'] assms by simp
next
  case False
  then show ?thesis using hslToHex_wave_lipschitz_le [of y' y] assms by simp
qed

lemma Math_round_near:
  assumes "\<bar>x - of_int z\<bar> < of_int k + 1 / 2"
  shows "\<bar>Math_round x - z\<bar> \<le> k"
proof -
  have "x + 1 / 2 < of_int (z + k + 1)" using assms by simp
  then have "\<lfloor>x + 1 / 2\<rfloor> < z + k + 1" by (simp only: floor_less_iff)
  moreover have "of_int (z - k) \<le> x + 1 / 2" using assms by simp
  then have "z - k \<le> \<lfloor>x + 1 / 2\<rfloor>" by (simp only: le_floor_iff)
  ultimately show ?thesis by (simp add: Math_round_def)
qed

lemma hexToHSL_sat_chroma:
  fixes r g b :: real
  assumes "0 \<le> r" "r \<le> 1" "0 \<le> g" "g \<le> 1" "0 \<le> b" "b \<le> 1"
    and "cmax = max (max r g) b" and "cmin = min (min r g) b"
  shows "hexToHSL_sat r g b * min ((cmax + cmin) / 2) (1 - (cmax + cmin) / 2) = (cmax - cmin) / 2"
proof -
  have mm: "cmin \<le> cmax" "0 \<le> cmin" "cmax \<le> 1"
    using assms by (auto simp: assms(7,8))
  show ?thesis
  proof (cases "cmax = cmin")
    case True
    then show ?thesis unfolding hexToHSL_sat_def Let_def assms(7,8)
      by (simp only: if_False simp_thms) simp
  next
    case False
    with mm have d: "0 < cmax - cmin" by simp
    have eq: "hexToHSL_sat r g b =
        (if (cmax + cmin) / 2 > 1 / 2 then (cmax - cmin) / (2 - cmax - cmin)
         else (cmax - cmin) / (cmax + cmin))"
      using False unfolding hexToHSL_sat_def Let_def assms(7,8)
      by (simp only: if_True simp_thms)
    show ?thesis
    proof (cases "(cmax + cmin) / 2 > 1 / 2")
      case True
      then have p: "0 < 2 - cmax - cmin" using mm d by linarith
      have m: "min ((cmax + cmin) / 2) (1 - (cmax + cmin) / 2) = (2 - cmax - cmin) / 2"
        using True by (simp add: min_def field_simps)
      show ?thesis unfolding eq m using True p by simp
    next
      case False
      have p: "0 < cmax + cmin" using mm d by linarith
      have m: "min ((cmax + cmin) / 2) (1 - (cmax + cmin) / 2) = (cmax + cmin) / 2"
        using False by (simp add: min_def field_simps)
      show ?thesis unfolding eq m using False p by simp
    qed
  qed
qed

lemma chroma_pieces:
  fixes cmax cmin d q :: real
  assumes "d = cmax - cmin"
  shows "(cmax + cmin) / 2 - d / 2 * (- 1) = cmax"
    and "(cmax + cmin) / 2 - d / 2 * 1 = cmin"
    and "(cmax + cmin) / 2 - d / 2 * (1 - 2 * q) = cmin + d * q"
    and "(cmax + cmin) / 2 - d / 2 * (1 + 2 * q) = cmin - d * q"
  unfolding assms by (simp_all add: field_simps)

lemma sector_ratio:
  fixes x y d :: real
  assumes "0 < d" "\<bar>x - y\<bar> \<le> d" "q = (x - y) / d"
  shows "- 1 \<le> q" "q \<le> 1" "d * q = x - y" "y \<le> x \<Longrightarrow> 0 \<le> q" "x < y \<Longrightarrow> q < 0"
  using assms by (simp_all add: le_divide_eq divide_le_eq divide_less_0_iff)

lemma hexToHSL_hue_inverse:
  fixes r g b :: real
  assumes cmax: "cmax = max (max r g) b" and cmin: "cmin = min (min r g) b"
    and d: "d = cmax - cmin" and y: "y = 12 * hexToHSL_hue r g b"
  shows "(cmax + cmin) / 2 - d / 2 * hslToHex_wave (0 + y) = r
       \<and> (cmax + cmin) / 2 - d / 2 * hslToHex_wave (8 + y) = g
       \<and> (cmax + cmin) / 2 - d / 2 * hslToHex_wave (4 + y) = b"
proof (cases "cmax = cmin")
  case True
  have "cmin \<le> r" "cmin \<le> g" "cmin \<le> b" "r \<le> cmax" "g \<le> cmax" "b \<le> cmax"
    by (simp_all add: cmax cmin)
  with True have "r = cmax" "g = cmax" "b = cmax" by simp_all
  with True show ?thesis by (simp add: d)
next
  case False
  have mm: "cmin \<le> r" "cmin \<le> g" "cmin \<le> b" "r \<le> cmax" "g \<le> cmax" "b \<le> cmax"
    by (simp_all add: cmax cmin)
  with False have dpos: "0 < d" by (simp add: d)
  have hue: "hexToHSL_hue r g b =
      (if cmax = r then ((g - b) / d + (if g < b then 6 else 0)) / 6
       else if cmax = g then ((b - r) / d + 2) / 6
       else if cmax = b then ((r - g) / d + 4) / 6
       else 0)"
    using False unfolding hexToHSL_hue_def Let_def d cmax cmin
    by (simp only: if_True simp_thms)
  note p = chroma_pieces [OF d]
  have some: "cmax = r \<or> cmax = g \<or> cmax = b"
    unfolding cmax by (auto simp: max_def)
  consider (A1) "cmax = r" "b \<le> g" | (A2) "cmax = r" "g < b"
    | (B1) "cmax \<noteq> r" "cmax = g" "r \<le> b" | (B2) "cmax \<noteq> r" "cmax = g" "b < r"
    | (C1) "cmax \<noteq> r" "cmax \<noteq> g" "cmax = b" "g \<le> r"
    | (C2) "cmax \<noteq> r" "cmax \<noteq> g" "cmax = b" "r < g"
    using some by fastforce
  then show ?thesis
  proof cases
    case A1
    define q where "q = (g - b) / d"
    have "\<bar>g - b\<bar> \<le> d" using mm by (simp add: d)
    note q = sector_ratio [OF dpos this q_def]
    have q0: "0 \<le> q" using q(4) A1 by simp
    have yq: "y = 2 * q" using A1 dpos by (simp add: y hue q_def field_simps)
    have lo: "cmin = b" using A1 mm unfolding cmin by simp
    have w: "hslToHex_wave (0 + y) = - 1" "hslToHex_wave (8 + y) = 1 - 2 * q"
      "hslToHex_wave (4 + y) = 1"
      using q0 q(2) by (simp_all add: yq hslToHex_wave_pieces)
    show ?thesis unfolding w p using q(3) A1 lo by simp
  next
    case A2
    define q where "q = (g - b) / d"
    have "\<bar>g - b\<bar> \<le> d" using mm by (simp add: d)
    note q = sector_ratio [OF dpos this q_def]
    have q0: "q < 0" using q(5) A2 by simp
    have yq: "y = 12 + 2 * q" using A2 dpos by (simp add: y hue q_def field_simps)
    have lo: "cmin = g" using A2 mm unfolding cmin by simp
    have w: "hslToHex_wave (0 + y) = - 1" "hslToHex_wave (8 + y) = 1"
      "hslToHex_wave (4 + y) = 1 + 2 * q"
      using q0 q(1) by (simp_all add: yq hslToHex_wave_pieces hslToHex_wave_pieces_high)
    show ?thesis unfolding w p using q(3) A2 lo by simp
  next
    case B1
    define q where "q = (b - r) / d"
    have "\<bar>b - r\<bar> \<le> d" using mm by (simp add: d)
    note q = sector_ratio [OF dpos this q_def]
    have q0: "0 \<le> q" using q(4) B1 by simp
    have yq: "y = 4 + 2 * q" using B1 dpos by (simp add: y hue q_def field_simps)
    have lo: "cmin = r" using B1 mm unfolding cmin by simp
    have w: "hslToHex_wave (0 + y) = 1" "hslToHex_wave (8 + y) = - 1"
      "hslToHex_wave (4 + y) = 1 - 2 * q"
      using q0 q(2) by (simp_all add: yq hslToHex_wave_pieces hslToHex_wave_pieces_high)
    show ?thesis unfolding w p using q(3) B1 lo by simp
  next
    case B2
    define q where "q = (b - r) / d"
    have "\<bar>b - r\<bar> \<le> d" using mm by (simp add: d)
    note q = sector_ratio [OF dpos this q_def]
    have q0: "q < 0" using q(5) B2 by simp
    have yq: "y = 4 + 2 * q" using B2 dpos by (simp add: y hue q_def field_simps)
    have lo: "cmin = b" using B2 mm unfolding cmin by simp
    have w: "hslToHex_wave (0 + y) = 1 + 2 * q" "hslToHex_wave (8 + y) = - 1"
      "hslToHex_wave (4 + y) = 1"
      using q0 q(1) by (simp_all add: yq hslToHex_wave_pieces)
    show ?thesis unfolding w p using q(3) B2 lo by simp
  next
    case C1
    define q where "q = (r - g) / d"
    have "\<bar>r - g\<bar> \<le> d" using mm by (simp add: d)
    note q = sector_ratio [OF dpos this q_def]
    have q0: "0 \<le> q" using q(4) C1 by simp
    have yq: "y = 8 + 2 * q" using C1 dpos by (simp add: y hue q_def field_simps)
    have lo: "cmin = g" using C1 mm unfolding cmin by simp
    have w: "hslToHex_wave (0 + y) = 1 - 2 * q" "hslToHex_wave (8 + y) = 1"
      "hslToHex_wave (4 + y) = - 1"
      using q0 q(2) by (simp_all add: yq hslToHex_wave_pieces hslToHex_wave_pieces_high)
    show ?thesis unfolding w p using q(3) C1 lo by simp
  next
    case C2
    define q where "q = (r - g) / d"
    have "\<bar>r - g\<bar> \<le> d" using mm by (simp add: d)
    note q = sector_ratio [OF dpos this q_def]
    have q0: "q < 0" using q(5) C2 by simp
    have yq: "y = 8 + 2 * q" using C2 dpos by (simp add: y hue q_def field_simps)
    have lo: "cmin = r" using C2 mm unfolding cmin by simp
    have w: "hslToHex_wave (0 + y) = 1" "hslToHex_wave (8 + y) = 1 + 2 * q"
      "hslToHex_wave (4 + y) = - 1"
      using q0 q(1) by (simp_all add: yq hslToHex_wave_pieces hslToHex_wave_pieces_high)
    show ?thesis unfolding w p using q(3) C2 lo by simp
  qed
qed

lemma abs_prod_bound:
  fixes x y A B :: real
  assumes "\<bar>x\<bar> \<le> A" "\<bar>y\<bar> \<le> B"
  shows "\<bar>x * y\<bar> \<le> A * B"
proof -
  have "\<bar>x\<bar> * \<bar>y\<bar> \<le> A * B"
    by (rule mult_mono) (use assms in simp_all)
  then show ?thesis by (simp add: abs_mult)
qed

lemma min_complement_lipschitz:
  fixes u v :: real
  shows "\<bar>min u (1 - u) - min v (1 - v)\<bar> \<le> \<bar>u - v\<bar>"
  by linarith

lemma chroma_range:
  fixes s1 l1 :: real
  assumes "0 \<le> s1" "s1 \<le> 1" "0 \<le> l1" "l1 \<le> 1"
  shows "0 \<le> s1 * min l1 (1 - l1)" "s1 * min l1 (1 - l1) \<le> l1" "s1 * min l1 (1 - l1) \<le> 1 - l1"
proof -
  have m: "0 \<le> min l1 (1 - l1)" using assms by simp
  show "0 \<le> s1 * min l1 (1 - l1)" using assms m by simp
  have "s1 * min l1 (1 - l1) \<le> 1 * min l1 (1 - l1)"
    by (rule mult_right_mono) (use assms m in simp_all)
  then show "s1 * min l1 (1 - l1) \<le> l1" "s1 * min l1 (1 - l1) \<le> 1 - l1" by simp_all
qed

section \<open>The channels and bytes of \<open>hslToHex\<close>\<close>

lemma hslToHex_color_eq:
  "hslToHex_color hue l1 a n = fl (l1 - fl (a * hslToHex_wave_fl (fl (n + fl (hue / 30)))))"
  by (simp add: hslToHex_color_def hslToHex_wave_fl_def Let_def)

lemma hslToHex_wave_fl_range: "- 1 \<le> hslToHex_wave_fl y \<and> hslToHex_wave_fl y \<le> 1"
  by (simp add: hslToHex_wave_fl_def Let_def)

text \<open>
  The normalised lightness \<open>l1\<close> is a double in \<open>[0, 1]\<close> and \<open>a\<close> is a double between 0
  and \<open>min l1 (fl (1 - l1))\<close>. Then \<open>l1 - a\<close> and \<open>l1 + a\<close> stay in \<open>[0, 1]\<close>: for \<open>l1\<close>
  below one half because \<open>a \<le> l1\<close>, otherwise because \<open>1 - l1\<close> is computed exactly.
\<close>

lemma chroma_fl_range:
  assumes l1: "fl l1 = l1" "0 \<le> l1" "l1 \<le> 1" and s1: "0 \<le> s1" "s1 \<le> 1"
    and a: "a = fl (s1 * min l1 (fl (1 - l1)))"
  shows "0 \<le> a" "a \<le> l1" "l1 + a \<le> 1" "fl a = a"
proof -
  define w where "w = fl (1 - l1)"
  define mu where "mu = min l1 w"
  have w0: "0 \<le> w" unfolding w_def by (rule fl_nonneg) (use l1 in simp)
  have mu0: "0 \<le> mu" using w0 l1 by (simp add: mu_def)
  have flmu: "fl mu = mu" by (simp add: mu_def fl_min l1 w_def fl_idem)
  have "0 \<le> s1 * mu" using s1 mu0 by simp
  from fl_nonneg [OF this] show a0: "0 \<le> a" by (simp add: a mu_def w_def)
  have "s1 * mu \<le> 1 * mu" by (rule mult_right_mono) (use s1 mu0 in simp_all)
  then have "fl (s1 * mu) \<le> fl mu" by (intro fl_mono) simp
  then have amu: "a \<le> mu" by (simp add: a mu_def [symmetric] w_def [symmetric] flmu)
  then show "a \<le> l1" by (simp add: mu_def)
  show "l1 + a \<le> 1"
  proof (cases "1 / 2 \<le> l1")
    case True
    from fl_one_minus [OF l1(1) True l1(3)] have "w = 1 - l1" by (simp add: w_def)
    with amu show ?thesis by (simp add: mu_def)
  next
    case False
    with amu show ?thesis by (simp add: mu_def)
  qed
  show "fl a = a" by (simp add: a fl_idem)
qed

lemma hslToHex_color_unit:
  assumes l1: "fl l1 = l1" "0 \<le> l1" "l1 \<le> 1" and s1: "0 \<le> s1" "s1 \<le> 1"
    and a: "a = fl (s1 * min l1 (fl (1 - l1)))"
  shows "0 \<le> hslToHex_color hue l1 a n \<and> hslToHex_color hue l1 a n \<le> 1"
proof -
  note c = chroma_fl_range [OF l1 s1 a]
  define w where "w = hslToHex_wave_fl (fl (n + fl (hue / 30)))"
  have w: "- 1 \<le> w" "w \<le> 1" using hslToHex_wave_fl_range by (simp_all add: w_def)
  define p where "p = fl (a * w)"
  have "a * w \<le> a * 1" by (rule mult_left_mono) (use w c in simp_all)
  then have "fl (a * w) \<le> fl a" by (intro fl_mono) simp
  then have p1: "p \<le> a" by (simp add: p_def c)
  have "a * (- 1) \<le> a * w" by (rule mult_left_mono) (use w c in simp_all)
  then have "fl (- a) \<le> fl (a * w)" by (intro fl_mono) simp
  then have p2: "- a \<le> p" by (simp add: p_def fl_minus c)
  have "0 \<le> l1 - p" "l1 - p \<le> 1" using p1 p2 c by linarith+
  from fl_unit [OF this] show ?thesis
    by (simp add: hslToHex_color_eq w_def [symmetric] p_def [symmetric])
qed

lemma Math_round_byte:
  assumes "0 \<le> x" "x \<le> 1"
  shows "0 \<le> Math_round (fl (255 * x)) \<and> Math_round (fl (255 * x)) \<le> 255"
proof (rule Math_round_between)
  have "0 \<le> 255 * x" "255 * x \<le> 255" using assms by simp_all
  from fl_mono [OF this(1)] fl_mono [OF this(2)]
  show "of_int 0 \<le> fl (255 * x)" "fl (255 * x) \<le> of_int 255"
    by (simp_all add: fl_0 fl_numerals)
qed

lemma hslToHex_f_unit:
  assumes "0 \<le> hslToHex_color hue l1 a n" "hslToHex_color hue l1 a n \<le> 1"
  shows "hslToHex_f hue l1 a n
       = [digitChar (nat (Math_round (fl (255 * hslToHex_color hue l1 a n))) div 16),
          digitChar (nat (Math_round (fl (255 * hslToHex_color hue l1 a n))) mod 16)]"
  unfolding hslToHex_f_def using Math_round_byte [OF assms] by (simp add: byte_string)

lemma normalised_unit:
  assumes "0 \<le> x" "x \<le> 100"
  shows "fl (fl (x / 100)) = fl (x / 100)" "0 \<le> fl (x / 100)" "fl (x / 100) \<le> 1"
proof -
  have "0 \<le> x / 100" "x / 100 \<le> 1" using assms by simp_all
  from fl_unit [OF this] show "0 \<le> fl (x / 100)" "fl (x / 100) \<le> 1" by simp_all
  show "fl (fl (x / 100)) = fl (x / 100)" by (rule fl_idem)
qed

lemma hslToHex_digits:
  assumes "0 \<le> sat" "sat \<le> 100" "0 \<le> lig" "lig \<le> 100"
    and "l1 = fl (lig / 100)"
    and "a = fl (fl (sat / 100) * min l1 (fl (1 - l1)))"
    and "R = nat (Math_round (fl (255 * hslToHex_color hue l1 a 0)))"
    and "G = nat (Math_round (fl (255 * hslToHex_color hue l1 a 8)))"
    and "B = nat (Math_round (fl (255 * hslToHex_color hue l1 a 4)))"
  shows "hslToHex hue sat lig = CHR ''#'' # [digitChar (R div 16), digitChar (R mod 16),
      digitChar (G div 16), digitChar (G mod 16), digitChar (B div 16), digitChar (B mod 16)]"
    and "R < 256" and "G < 256" and "B < 256"
proof -
  note l = normalised_unit [OF assms(3,4), folded assms(5)]
  note s = normalised_unit [OF assms(1,2)]
  note c = hslToHex_color_unit [OF l s(2,3) assms(6), of hue]
  have f: "hslToHex_f hue l1 a n
       = [digitChar (nat (Math_round (fl (255 * hslToHex_color hue l1 a n))) div 16),
          digitChar (nat (Math_round (fl (255 * hslToHex_color hue l1 a n))) mod 16)]" for n
    using c [of n] by (simp add: hslToHex_f_unit)
  show "hslToHex hue sat lig = CHR ''#'' # [digitChar (R div 16), digitChar (R mod 16),
      digitChar (G div 16), digitChar (G mod 16), digitChar (B div 16), digitChar (B mod 16)]"
    unfolding hslToHex_def Let_def assms(5) [symmetric] assms(6) [symmetric] f assms(7-9) by simp
  have b: "Math_round (fl (255 * hslToHex_color hue l1 a n)) \<le> 255" for n
    using Math_round_byte [of "hslToHex_color hue l1 a n"] c [of n] by simp
  show "R < 256" "G < 256" "B < 256"
    unfolding assms(7-9) using b [of 0] b [of 8] b [of 4] by linarith+
qed

lemma hexChannels_hslToHex:
  assumes "0 \<le> sat" "sat \<le> 100" "0 \<le> lig" "lig \<le> 100"
    and "l1 = fl (lig / 100)"
    and "a = fl (fl (sat / 100) * min l1 (fl (1 - l1)))"
    and "R = nat (Math_round (fl (255 * hslToHex_color hue l1 a 0)))"
    and "G = nat (Math_round (fl (255 * hslToHex_color hue l1 a 8)))"
    and "B = nat (Math_round (fl (255 * hslToHex_color hue l1 a 4)))"
  shows "hexChannels (hslToHex hue sat lig) = Some (R, G, B)"
proof -
  note d = hslToHex_digits [OF assms]
  show ?thesis
    unfolding d(1) hexChannels_def HEX_REGEX_exec_of_bytes [OF d(2-4)]
    using d(2-4) by (simp add: parseInt16_byte)
qed

section \<open>The result of \<open>hexToHSL\<close> on the channel bytes\<close>

lemma hexToHSL_channels:
  assumes "hexChannels hex = Some (R, G, B)"
    and "r = fl (real R / 255)" and "g = fl (real G / 255)" and "b = fl (real B / 255)"
  shows "hexToHSL hex = Inr \<lparr>
      h = of_int (Math_round (fl (hexToHSL_h r g b * 360))),
      s = of_int (Math_round (fl (hexToHSL_s r g b * 100))),
      l = of_int (Math_round (fl (hexToHSL_l r g b * 100))) \<rparr>"
proof (cases "HEX_REGEX_exec hex")
  case None
  with assms show ?thesis by (simp add: hexChannels_def)
next
  case (Some t)
  obtain c1 c2 c3 where t: "t = (c1, c2, c3)" by (cases t) auto
  from assms Some t have p: "parseInt16 c1 = R" "parseInt16 c2 = G" "parseInt16 c3 = B"
    by (simp_all add: hexChannels_def)
  show ?thesis
    unfolding hexToHSL_def Some t option.case prod.case p assms(2-4) [symmetric]
      hexToHSL_h_def hexToHSL_s_def hexToHSL_l_def Let_def
    by (simp only: case_if_pair)
qed

section \<open>The computed values against exact arithmetic\<close>

lemma hexToHSL_scaled_close:
  assumes le: "R \<le> 255" "G \<le> 255" "B \<le> 255"
    and "r = fl (real R / 255)" and "g = fl (real G / 255)" and "b = fl (real B / 255)"
    and "Mx = max (max R G) B" and "Mn = min (min R G) B"
  shows "\<bar>fl (hexToHSL_h r g b * 360)
           - hexToHSL_hue (real R / 255) (real G / 255) (real B / 255) * 360\<bar> \<le> 1 / 100000"
    and "\<bar>fl (hexToHSL_s r g b * 100)
           - hexToHSL_sat (real R / 255) (real G / 255) (real B / 255) * 100\<bar> \<le> 1 / 100000"
    and "\<bar>fl (hexToHSL_l r g b * 100) - (real Mx / 255 + real Mn / 255) / 2 * 100\<bar> \<le> 1 / 100000"
proof -
  have u: "0 \<le> real R / 255" "real R / 255 \<le> 1" "0 \<le> real G / 255" "real G / 255 \<le> 1"
    "0 \<le> real B / 255" "real B / 255 \<le> 1" using le by simp_all
  have mle: "Mx \<le> 255" "Mn \<le> 255" using le assms(7,8) by simp_all
  define hx where "hx = hexToHSL_hue (real R / 255) (real G / 255) (real B / 255)"
  define sx where "sx = hexToHSL_sat (real R / 255) (real G / 255) (real B / 255)"
  define lx where "lx = (real Mx / 255 + real Mn / 255) / 2"
  define h' where "h' = hexToHSL_h r g b"
  define s' where "s' = hexToHSL_s r g b"
  define l' where "l' = hexToHSL_l r g b"
  have hr: "0 \<le> hx" "hx \<le> 1" using hexToHSL_hue_range by (simp_all add: hx_def)
  have sr: "0 \<le> sx" "sx \<le> 1" using hexToHSL_sat_range [OF u] by (simp_all add: sx_def)
  have lr: "0 \<le> lx" "lx \<le> 1" using mle by (simp_all add: lx_def)
  have eh: "\<bar>h' - hx\<bar> \<le> 3 / 10000000000"
    unfolding h'_def hx_def assms(4-6) by (rule hexToHSL_h_close [OF le])
  have es: "\<bar>s' - sx\<bar> \<le> 2 / 100000000"
    unfolding s'_def sx_def assms(4-6) by (rule hexToHSL_s_close [OF le])
  have el: "\<bar>l' - lx\<bar> \<le> 3 / 1000000000000"
    unfolding l'_def lx_def assms(4-6) by (rule hexToHSL_l_close [OF le assms(7,8)])
  have "\<bar>h' * 360\<bar> \<le> 1024" using eh hr by argo
  from fl_err [OF this] eh show "\<bar>fl (hexToHSL_h r g b * 360)
           - hexToHSL_hue (real R / 255) (real G / 255) (real B / 255) * 360\<bar> \<le> 1 / 100000"
    unfolding h'_def [symmetric] hx_def [symmetric] by argo
  have "\<bar>s' * 100\<bar> \<le> 1024" using es sr by argo
  from fl_err [OF this] es show "\<bar>fl (hexToHSL_s r g b * 100)
           - hexToHSL_sat (real R / 255) (real G / 255) (real B / 255) * 100\<bar> \<le> 1 / 100000"
    unfolding s'_def [symmetric] sx_def [symmetric] by argo
  have "\<bar>l' * 100\<bar> \<le> 1024" using el lr by argo
  from fl_err [OF this] el
  show "\<bar>fl (hexToHSL_l r g b * 100) - (real Mx / 255 + real Mn / 255) / 2 * 100\<bar> \<le> 1 / 100000"
    unfolding l'_def [symmetric] lx_def [symmetric] by argo
qed

lemma min_close:
  fixes a b a' b' e :: real
  assumes "\<bar>a' - a\<bar> \<le> e" "\<bar>b' - b\<bar> \<le> e"
  shows "\<bar>min a' b' - min a b\<bar> \<le> e"
  using assms by argo

lemma js_rem_12_range:
  assumes "0 \<le> y" "y < 24"
  shows "0 \<le> js_rem y 12" "js_rem y 12 < 12"
  using assms js_rem_12_low [of y] js_rem_12_high [of y] by (cases "y < 12"; simp)+

lemma hslToHex_wave_fl_close:
  assumes "0 \<le> y" "y < 24"
  shows "\<bar>hslToHex_wave_fl y - hslToHex_wave y\<bar> \<le> 1 / 1000000000000"
proof -
  define k where "k = js_rem y 12"
  note kr = js_rem_12_range [OF assms, folded k_def]
  have "\<bar>k - 3\<bar> \<le> 1024" "\<bar>9 - k\<bar> \<le> 1024" using kr by argo+
  note e = fl_err [OF this(1)] fl_err [OF this(2)]
  define u' where "u' = min (fl (k - 3)) (fl (9 - k))"
  define u where "u = min (k - 3) (9 - k)"
  have "\<bar>u' - u\<bar> \<le> 1 / 1000000000000"
    unfolding u'_def u_def by (rule min_close [OF e])
  moreover have "\<bar>max (min u' 1) (- 1) - max (min u 1) (- 1)\<bar> \<le> \<bar>u' - u\<bar>"
    by (rule clamp_lipschitz)
  ultimately have "\<bar>max (min u' 1) (- 1) - max (min u 1) (- 1)\<bar> \<le> 1 / 1000000000000"
    by (rule order_trans [rotated])
  then show ?thesis
    unfolding hslToHex_wave_fl_def hslToHex_wave_def Let_def k_def [symmetric]
      u'_def [symmetric] u_def [symmetric] .
qed

lemma product_close:
  fixes a w A W ea ew :: real
  assumes "\<bar>a - A\<bar> \<le> ea" "\<bar>w - W\<bar> \<le> ew" "\<bar>w\<bar> \<le> 1" "\<bar>A\<bar> \<le> 1"
  shows "\<bar>a * w - A * W\<bar> \<le> ea + ew"
proof -
  have 1: "\<bar>(a - A) * w\<bar> \<le> ea * 1" by (rule abs_prod_bound [OF assms(1,3)])
  have 2: "\<bar>A * (w - W)\<bar> \<le> 1 * ew" by (rule abs_prod_bound [OF assms(4,2)])
  have "a * w - A * W = (a - A) * w + A * (w - W)" by (simp add: algebra_simps)
  then show ?thesis using 1 2 by linarith
qed

text \<open>
  The channel that \<open>hslToHex\<close> computes is within \<open>10 ^ -11\<close> of the channel of the same
  hue, saturation and lightness in exact arithmetic.
\<close>

lemma hslToHex_color_close:
  assumes hue: "0 \<le> hue" "hue \<le> 360" and sat: "0 \<le> sat" "sat \<le> 100"
    and lig: "0 \<le> lig" "lig \<le> 100" and n: "0 \<le> n" "n \<le> 8"
    and l1: "l1 = fl (lig / 100)"
    and a: "a = fl (fl (sat / 100) * min l1 (fl (1 - l1)))"
  shows "\<bar>hslToHex_color hue l1 a n
      - (lig / 100 - sat / 100 * min (lig / 100) (1 - lig / 100) * hslToHex_wave (n + hue / 30))\<bar>
      \<le> 1 / 100000000000"
proof -
  define S' where "S' = sat / 100"
  define L' where "L' = lig / 100"
  define s1 where "s1 = fl S'"
  define w1 where "w1 = fl (1 - l1)"
  define mu' where "mu' = min l1 w1"
  define MU where "MU = min L' (1 - L')"
  define A where "A = S' * MU"
  define Y where "Y = n + hue / 30"
  define x' where "x' = fl (hue / 30)"
  define y' where "y' = fl (n + x')"
  define w' where "w' = hslToHex_wave_fl y'"
  define W where "W = hslToHex_wave Y"
  define p where "p = fl (a * w')"
  have Su: "0 \<le> S'" "S' \<le> 1" using sat by (simp_all add: S'_def)
  have Lu: "0 \<le> L'" "L' \<le> 1" using lig by (simp_all add: L'_def)
  have es: "\<bar>s1 - S'\<bar> \<le> 1 / 1000000000000"
    unfolding s1_def by (rule fl_err) (use Su in simp)
  have el: "\<bar>l1 - L'\<bar> \<le> 1 / 1000000000000"
    unfolding l1 L'_def [symmetric] by (rule fl_err) (use Lu in simp)
  have "\<bar>1 - l1\<bar> \<le> 1024" using el Lu by argo
  from fl_err [OF this] el have ew1: "\<bar>w1 - (1 - L')\<bar> \<le> 2 / 1000000000000"
    unfolding w1_def by argo
  have el2: "\<bar>l1 - L'\<bar> \<le> 2 / 1000000000000" using el by argo
  have emu: "\<bar>mu' - MU\<bar> \<le> 2 / 1000000000000"
    unfolding mu'_def MU_def by (rule min_close [OF el2 ew1])
  have MUu: "0 \<le> MU" "MU \<le> 1" using Lu unfolding MU_def by argo+
  have mu1: "\<bar>mu'\<bar> \<le> 1" using emu MUu Lu unfolding MU_def by argo
  have S1: "\<bar>S'\<bar> \<le> 1" using Su by argo
  have "\<bar>s1 * mu' - S' * MU\<bar> \<le> 1 / 1000000000000 + 2 / 1000000000000"
  proof -
    have 1: "\<bar>(s1 - S') * mu'\<bar> \<le> 1 / 1000000000000 * 1" by (rule abs_prod_bound [OF es mu1])
    have 2: "\<bar>S' * (mu' - MU)\<bar> \<le> 1 * (2 / 1000000000000)" by (rule abs_prod_bound [OF S1 emu])
    have "s1 * mu' - S' * MU = (s1 - S') * mu' + S' * (mu' - MU)" by (simp add: algebra_simps)
    then show ?thesis using 1 2 by linarith
  qed
  then have e3: "\<bar>s1 * mu' - A\<bar> \<le> 3 / 1000000000000" by (simp add: A_def)
  have Au: "0 \<le> A" "A \<le> 1"
    using Su MUu by (simp_all add: A_def mult_le_one)
  have "\<bar>s1 * mu'\<bar> \<le> 1024" using e3 Au by argo
  from fl_err [OF this] e3 have ea: "\<bar>a - A\<bar> \<le> 4 / 1000000000000"
    unfolding a s1_def [symmetric] S'_def [symmetric] w1_def [symmetric] mu'_def [symmetric] by argo
  have xr: "0 \<le> hue / 30" "hue / 30 \<le> 12" using hue by simp_all
  from fl_mono [OF xr(1)] fl_mono [OF xr(2)] have x'r: "0 \<le> x'" "x' \<le> 12"
    by (simp_all add: x'_def fl_0 fl_numerals)
  have ex': "\<bar>x' - hue / 30\<bar> \<le> 1 / 1000000000000"
    unfolding x'_def by (rule fl_err) (use xr in simp)
  have "0 \<le> n + x'" "n + x' \<le> 20" using n x'r by linarith+
  from fl_mono [OF this(1)] fl_mono [OF this(2)] have y'r: "0 \<le> y'" "y' \<le> 20"
    by (simp_all add: y'_def fl_0 fl_numerals)
  have "\<bar>n + x'\<bar> \<le> 1024" using n x'r by argo
  from fl_err [OF this] ex' have ey: "\<bar>y' - Y\<bar> \<le> 2 / 1000000000000"
    unfolding y'_def Y_def by argo
  have Yr: "0 \<le> Y" "Y < 24" using n xr by (simp_all add: Y_def)
  have "\<bar>w' - hslToHex_wave y'\<bar> \<le> 1 / 1000000000000"
    unfolding w'_def by (rule hslToHex_wave_fl_close) (use y'r in simp_all)
  moreover have "\<bar>hslToHex_wave y' - hslToHex_wave Y\<bar> \<le> \<bar>y' - Y\<bar>"
    by (rule hslToHex_wave_lipschitz) (use Yr y'r in simp_all)
  ultimately have ew: "\<bar>w' - W\<bar> \<le> 3 / 1000000000000" using ey unfolding W_def by argo
  have w'1: "\<bar>w'\<bar> \<le> 1" using hslToHex_wave_fl_range [of y'] unfolding w'_def by argo
  have A1: "\<bar>A\<bar> \<le> 1" using Au by argo
  from product_close [OF ea ew w'1 A1]
  have e5: "\<bar>a * w' - A * W\<bar> \<le> 7 / 1000000000000" by simp
  have W1: "- 1 \<le> W" "W \<le> 1" using hslToHex_wave_range [of Y] by (simp_all add: W_def)
  have "\<bar>A * W\<bar> \<le> 1 * 1" by (rule abs_prod_bound [OF A1]) (use W1 in argo)
  with e5 have "\<bar>a * w'\<bar> \<le> 1024" by argo
  from fl_err [OF this] e5 have ep: "\<bar>p - A * W\<bar> \<le> 8 / 1000000000000"
    unfolding p_def by argo
  have AW: "\<bar>A * W\<bar> \<le> 1" using \<open>\<bar>A * W\<bar> \<le> 1 * 1\<close> by simp
  have "\<bar>l1 - p\<bar> \<le> 1024" using ep el Lu AW by argo
  from fl_err [OF this] ep el have "\<bar>fl (l1 - p) - (L' - A * W)\<bar> \<le> 1 / 100000000000"
    by argo
  then show ?thesis
    unfolding hslToHex_color_eq x'_def [symmetric] y'_def [symmetric] w'_def [symmetric]
      p_def [symmetric] L'_def [symmetric] S'_def [symmetric] MU_def [symmetric] A_def [symmetric]
      Y_def [symmetric] W_def [symmetric] .
qed

lemma hslToHex_byte_close:
  assumes hue: "0 \<le> hue" "hue \<le> 360" and sat: "0 \<le> sat" "sat \<le> 100"
    and lig: "0 \<le> lig" "lig \<le> 100" and n: "0 \<le> n" "n \<le> 8"
    and l1: "l1 = fl (lig / 100)"
    and a: "a = fl (fl (sat / 100) * min l1 (fl (1 - l1)))"
  shows "\<bar>fl (255 * hslToHex_color hue l1 a n)
      - 255 * (lig / 100 - sat / 100 * min (lig / 100) (1 - lig / 100) * hslToHex_wave (n + hue / 30))\<bar>
      \<le> 1 / 100000000"
proof -
  define c where "c = hslToHex_color hue l1 a n"
  define E where "E = lig / 100 - sat / 100 * min (lig / 100) (1 - lig / 100) * hslToHex_wave (n + hue / 30)"
  have e: "\<bar>c - E\<bar> \<le> 1 / 100000000000"
    unfolding c_def E_def by (rule hslToHex_color_close [OF assms])
  note l = normalised_unit [OF lig, folded l1]
  note s = normalised_unit [OF sat]
  have "0 \<le> c \<and> c \<le> 1" unfolding c_def by (rule hslToHex_color_unit [OF l s(2,3) a])
  then have "\<bar>255 * c\<bar> \<le> 1024" by argo
  from fl_err [OF this] e have "\<bar>fl (255 * c) - 255 * E\<bar> \<le> 1 / 100000000" by argo
  then show ?thesis unfolding c_def E_def .
qed

lemma Math_round_decide:
  assumes "\<bar>x - y\<bar> \<le> d" "of_int k - 1 / 2 + d \<le> y" "y < of_int k + 1 / 2 - d"
  shows "Math_round x = k"
proof -
  have "of_int k \<le> x + 1 / 2" "x + 1 / 2 < of_int k + 1" using assms by argo+
  then show ?thesis unfolding Math_round_def by (simp only: floor_eq_iff)
qed

section \<open>The lightness of a generated shade\<close>

lemma hslToHex_lightness:
  fixes L :: int
  assumes "0 \<le> hue" "hue \<le> 360" "0 \<le> sat" "sat \<le> 100" "0 \<le> L" "L \<le> 100"
  shows "\<exists>hsl. hexToHSL (hslToHex hue sat (of_int L)) = Inr hsl \<and> l hsl = of_int L"
proof -
  define lx :: real where "lx = of_int L / 100"
  define l1 where "l1 = fl lx"
  define a where "a = fl (fl (sat / 100) * min l1 (fl (1 - l1)))"
  define A where "A = sat / 100 * min lx (1 - lx)"
  define v where "v n = fl (255 * hslToHex_color hue l1 a n)" for n
  define z where "z n = Math_round (v n)" for n
  define W where "W n = hslToHex_wave (n + hue / 30)" for n
  define R where "R = nat (z 0)"
  define G where "G = nat (z 8)"
  define B where "B = nat (z 4)"
  define Mx where "Mx = max (max R G) B"
  define Mn where "Mn = min (min R G) B"
  define lo where "lo = 255 * (lx - A)"
  define hi where "hi = 255 * (lx + A)"
  have lr: "(0::real) \<le> of_int L" "real_of_int L \<le> 100" using assms(5,6) by simp_all
  have u: "0 \<le> sat / 100" "sat / 100 \<le> 1" "0 \<le> lx" "lx \<le> 1"
    using assms(3,4) lr by (simp_all add: lx_def)
  have A0: "0 \<le> A" unfolding A_def by (rule chroma_range(1) [OF u])
  note l = normalised_unit [OF lr, folded lx_def l1_def]
  note s = normalised_unit [OF assms(3,4)]
  have cu: "0 \<le> hslToHex_color hue l1 a n \<and> hslToHex_color hue l1 a n \<le> 1" for n
    unfolding a_def by (rule hslToHex_color_unit [OF l s(2,3) refl])
  have z0: "0 \<le> z n" for n
    unfolding z_def v_def using Math_round_byte [of "hslToHex_color hue l1 a n"] cu [of n] by simp
  have ch: "hexChannels (hslToHex hue sat (of_int L)) = Some (R, G, B)"
    unfolding R_def G_def B_def z_def v_def
    by (rule hexChannels_hslToHex [OF assms(3,4) lr]) (simp_all add: a_def l1_def lx_def)
  have z255: "z n \<le> 255" for n
    unfolding z_def v_def using Math_round_byte [of "hslToHex_color hue l1 a n"] cu [of n] by simp
  have le: "R \<le> 255" "G \<le> 255" "B \<le> 255"
    using z255 [of 0] z255 [of 8] z255 [of 4] by (simp_all add: R_def G_def B_def)
  have close: "\<bar>v n - 255 * (lx - A * W n)\<bar> \<le> 1 / 100000000" if "0 \<le> n" "n \<le> 8" for n
    unfolding v_def A_def W_def lx_def mult.assoc [symmetric]
    by (rule hslToHex_byte_close [OF assms(1-4) lr that])
      (simp_all add: l1_def lx_def a_def)
  have Wr: "- 1 \<le> W n" "W n \<le> 1" for n
    using hslToHex_wave_range [of "n + hue / 30"] by (simp_all add: W_def)
  have AW: "A * W n \<le> A" "- A \<le> A * W n" for n
    using mult_left_mono [OF Wr(2) A0, of n] mult_left_mono [OF Wr(1) A0, of n] by simp_all
  have rb: "v n - 1 / 2 < of_int (z n)" "of_int (z n) \<le> v n + 1 / 2" for n
    using Math_round_bounds [of "v n"] by (simp_all add: z_def)
  have all: "lo - 1 / 100000000 - 1 / 2 < of_int (z n) \<and> of_int (z n) \<le> hi + 1 / 100000000 + 1 / 2"
    if "0 \<le> n" "n \<le> 8" for n
    using close [OF that] AW [of n] rb [of n] unfolding lo_def hi_def by argo
  have top: "hi - 1 / 100000000 - 1 / 2 < of_int (z n)" if "0 \<le> n" "n \<le> 8" "W n = - 1" for n
    using close [OF that(1,2)] rb [of n] unfolding hi_def that(3) by argo
  have bot: "of_int (z n) \<le> lo + 1 / 100000000 + 1 / 2" if "0 \<le> n" "n \<le> 8" "W n = 1" for n
    using close [OF that(1,2)] rb [of n] unfolding lo_def that(3) by argo
  have x: "0 \<le> hue / 30" "hue / 30 \<le> 12" using assms(1,2) by simp_all
  note ex = hslToHex_wave_extremes [OF x, folded W_def]
  have rz: "real R = of_int (z 0)" "real G = of_int (z 8)" "real B = of_int (z 4)"
    using z0 [of 0] z0 [of 8] z0 [of 4] by (simp_all add: R_def G_def B_def)
  have all3: "lo - 1 / 100000000 - 1 / 2 < real R" "real R \<le> hi + 1 / 100000000 + 1 / 2"
    "lo - 1 / 100000000 - 1 / 2 < real G" "real G \<le> hi + 1 / 100000000 + 1 / 2"
    "lo - 1 / 100000000 - 1 / 2 < real B" "real B \<le> hi + 1 / 100000000 + 1 / 2"
    unfolding rz using all [of 0] all [of 8] all [of 4] by simp_all
  have "hi - 1 / 100000000 - 1 / 2 < real R \<or> hi - 1 / 100000000 - 1 / 2 < real G
      \<or> hi - 1 / 100000000 - 1 / 2 < real B"
    unfolding rz using ex top [of 0] top [of 8] top [of 4] by auto
  moreover have "R \<le> Mx" "G \<le> Mx" "B \<le> Mx" by (simp_all add: Mx_def)
  then have "real R \<le> real Mx" "real G \<le> real Mx" "real B \<le> real Mx" by simp_all
  ultimately have Mx1: "hi - 1 / 100000000 - 1 / 2 < real Mx" by linarith
  have "Mx = R \<or> Mx = G \<or> Mx = B" unfolding Mx_def by linarith
  then have Mx2: "real Mx \<le> hi + 1 / 100000000 + 1 / 2" using all3 by auto
  have "real R \<le> lo + 1 / 100000000 + 1 / 2 \<or> real G \<le> lo + 1 / 100000000 + 1 / 2
      \<or> real B \<le> lo + 1 / 100000000 + 1 / 2"
    unfolding rz using ex bot [of 0] bot [of 8] bot [of 4] by auto
  moreover have "Mn \<le> R" "Mn \<le> G" "Mn \<le> B" by (simp_all add: Mn_def)
  then have "real Mn \<le> real R" "real Mn \<le> real G" "real Mn \<le> real B" by simp_all
  ultimately have Mn2: "real Mn \<le> lo + 1 / 100000000 + 1 / 2" by linarith
  have "Mn = R \<or> Mn = G \<or> Mn = B" unfolding Mn_def by linarith
  then have Mn1: "lo - 1 / 100000000 - 1 / 2 < real Mn" using all3 by auto
  define q where "q = fl (hexToHSL_l (fl (real R / 255)) (fl (real G / 255)) (fl (real B / 255)) * 100)"
  have sc: "\<bar>q - (real Mx / 255 + real Mn / 255) / 2 * 100\<bar> \<le> 1 / 100000"
    unfolding q_def by (rule hexToHSL_scaled_close(3) [OF le refl refl refl Mx_def Mn_def])
  have L: "real_of_int L = 100 * lx" by (simp add: lx_def)
  have "\<bar>q - of_int L\<bar> < 1 / 2"
    unfolding L using sc Mx1 Mx2 Mn1 Mn2 unfolding lo_def hi_def by argo
  then have "Math_round q = L" using Math_round_near [of q L 0] by simp
  then have "l \<lparr> h = hh, s = ss, l = of_int (Math_round q) \<rparr> = of_int L" for hh ss :: real
    by simp
  then show ?thesis
    unfolding hexToHSL_channels [OF ch refl refl refl] q_def by blast
qed

section \<open>The rounded triple of \<open>hexToHSL\<close>\<close>

lemma Math_round_range:
  assumes "- (1 / 2) \<le> x" "x < of_int b + 1 / 2"
  shows "0 \<le> Math_round x \<and> Math_round x \<le> b"
proof -
  have "of_int 0 \<le> x + 1 / 2" using assms by simp
  then have "0 \<le> \<lfloor>x + 1 / 2\<rfloor>" by (simp only: le_floor_iff)
  moreover have "x + 1 / 2 < of_int (b + 1)" using assms by simp
  then have "\<lfloor>x + 1 / 2\<rfloor> < b + 1" by (simp only: floor_less_iff)
  ultimately show ?thesis by (simp add: Math_round_def)
qed

lemma hexToHSL_rounded:
  assumes le: "R \<le> 255" "G \<le> 255" "B \<le> 255"
    and "r = fl (real R / 255)" and "g = fl (real G / 255)" and "b = fl (real B / 255)"
    and "H = Math_round (fl (hexToHSL_h r g b * 360))"
    and "S = Math_round (fl (hexToHSL_s r g b * 100))"
    and "L = Math_round (fl (hexToHSL_l r g b * 100))"
  shows "0 \<le> H \<and> H \<le> 360" and "0 \<le> S \<and> S \<le> 100" and "0 \<le> L \<and> L \<le> 100"
    and "\<bar>of_int H / 30 - 12 * hexToHSL_hue (real R / 255) (real G / 255) (real B / 255)\<bar>
          \<le> 1 / 60 + 1 / 1000000"
    and "\<bar>of_int S / 100 - hexToHSL_sat (real R / 255) (real G / 255) (real B / 255)\<bar>
          \<le> 1 / 200 + 1 / 1000000"
    and "\<bar>of_int L / 100
          - (max (max (real R / 255) (real G / 255)) (real B / 255)
             + min (min (real R / 255) (real G / 255)) (real B / 255)) / 2\<bar>
          \<le> 1 / 200 + 1 / 1000000"
proof -
  define Mx where "Mx = max (max R G) B"
  define Mn where "Mn = min (min R G) B"
  define hx where "hx = hexToHSL_hue (real R / 255) (real G / 255) (real B / 255)"
  define sx where "sx = hexToHSL_sat (real R / 255) (real G / 255) (real B / 255)"
  define lx where "lx = (real Mx / 255 + real Mn / 255) / 2"
  define qh where "qh = fl (hexToHSL_h r g b * 360)"
  define qs where "qs = fl (hexToHSL_s r g b * 100)"
  define ql where "ql = fl (hexToHSL_l r g b * 100)"
  have u: "0 \<le> real R / 255" "real R / 255 \<le> 1" "0 \<le> real G / 255" "real G / 255 \<le> 1"
    "0 \<le> real B / 255" "real B / 255 \<le> 1" using le by simp_all
  have mle: "Mx \<le> 255" "Mn \<le> 255" using le by (simp_all add: Mx_def Mn_def)
  have hr: "0 \<le> hx" "hx \<le> 1" using hexToHSL_hue_range by (simp_all add: hx_def)
  have sr: "0 \<le> sx" "sx \<le> 1" using hexToHSL_sat_range [OF u] by (simp_all add: sx_def)
  have lr: "0 \<le> lx" "lx \<le> 1" using mle by (simp_all add: lx_def)
  note sc = hexToHSL_scaled_close [OF le assms(4-6) Mx_def Mn_def,
      folded hx_def sx_def lx_def qh_def qs_def ql_def]
  note bh = Math_round_bounds [of qh, folded assms(7) [unfolded qh_def [symmetric]]]
  note bs = Math_round_bounds [of qs, folded assms(8) [unfolded qs_def [symmetric]]]
  note bl = Math_round_bounds [of ql, folded assms(9) [unfolded ql_def [symmetric]]]
  have "- (1 / 2) \<le> qh" "qh < 360 + 1 / 2" using sc(1) hr by argo+
  then have "- (1 / 2) \<le> qh" "qh < of_int 360 + 1 / 2" by simp_all
  from Math_round_range [OF this] show "0 \<le> H \<and> H \<le> 360" by (simp add: assms(7) qh_def)
  have "- (1 / 2) \<le> qs" "qs < 100 + 1 / 2" using sc(2) sr by argo+
  then have "- (1 / 2) \<le> qs" "qs < of_int 100 + 1 / 2" by simp_all
  from Math_round_range [OF this] show "0 \<le> S \<and> S \<le> 100" by (simp add: assms(8) qs_def)
  have "- (1 / 2) \<le> ql" "ql < 100 + 1 / 2" using sc(3) lr by argo+
  then have "- (1 / 2) \<le> ql" "ql < of_int 100 + 1 / 2" by simp_all
  from Math_round_range [OF this] show "0 \<le> L \<and> L \<le> 100" by (simp add: assms(9) ql_def)
  have "\<bar>of_int H / 30 - 12 * hx\<bar> \<le> 1 / 60 + 1 / 1000000" using sc(1) bh by argo
  then show "\<bar>of_int H / 30 - 12 * hexToHSL_hue (real R / 255) (real G / 255) (real B / 255)\<bar>
          \<le> 1 / 60 + 1 / 1000000" unfolding hx_def .
  have "\<bar>of_int S / 100 - sx\<bar> \<le> 1 / 200 + 1 / 1000000" using sc(2) bs by argo
  then show "\<bar>of_int S / 100 - hexToHSL_sat (real R / 255) (real G / 255) (real B / 255)\<bar>
          \<le> 1 / 200 + 1 / 1000000" unfolding sx_def .
  have "\<bar>of_int L / 100 - lx\<bar> \<le> 1 / 200 + 1 / 1000000" using sc(3) bl by argo
  then show "\<bar>of_int L / 100
          - (max (max (real R / 255) (real G / 255)) (real B / 255)
             + min (min (real R / 255) (real G / 255)) (real B / 255)) / 2\<bar>
          \<le> 1 / 200 + 1 / 1000000"
    unfolding lx_def byte_fraction_max byte_fraction_min Mx_def Mn_def .
qed

lemma hexToHSL_ranges:
  assumes "hexChannels hex = Some (R, G, B)" "R \<le> 255" "G \<le> 255" "B \<le> 255"
  obtains hsl where "hexToHSL hex = Inr hsl" "0 \<le> h hsl" "h hsl \<le> 360" "0 \<le> s hsl" "s hsl \<le> 100"
proof -
  note r = hexToHSL_rounded(1,2) [OF assms(2-4) refl refl refl refl refl refl]
  show thesis
    by (intro that [OF hexToHSL_channels [OF assms(1) refl refl refl]]) (use r in simp_all)
qed

section \<open>The round trip through the rounded HSL triple\<close>

lemma roundtrip_exact:
  fixes r g b :: real
  assumes u: "0 \<le> r" "r \<le> 1" "0 \<le> g" "g \<le> 1" "0 \<le> b" "b \<le> 1"
    and cmax: "cmax = max (max r g) b" and cmin: "cmin = min (min r g) b"
    and f1: "\<bar>L' - (cmax + cmin) / 2\<bar> \<le> 1 / 200 + 1 / 1000000"
    and f2: "\<bar>S' - hexToHSL_sat r g b\<bar> \<le> 1 / 200 + 1 / 1000000"
    and f3: "\<bar>H' / 30 - 12 * hexToHSL_hue r g b\<bar> \<le> 1 / 60 + 1 / 1000000"
    and S': "0 \<le> S'" "S' \<le> 1" and H': "0 \<le> H'" "H' \<le> 360"
    and n: "0 \<le> n" "n \<le> 8"
    and exact: "(cmax + cmin) / 2 - (cmax - cmin) / 2 * hslToHex_wave (n + 12 * hexToHSL_hue r g b) = c"
  shows "\<bar>L' - S' * min L' (1 - L') * hslToHex_wave (n + H' / 30) - c\<bar> \<le> 1 / 48 + 4 / 1000000"
proof -
  define lx where "lx = (cmax + cmin) / 2"
  define a where "a = (cmax - cmin) / 2"
  define sx where "sx = hexToHSL_sat r g b"
  define hx where "hx = hexToHSL_hue r g b"
  define mu where "mu = min lx (1 - lx)"
  define mu' where "mu' = min L' (1 - L')"
  define w where "w = hslToHex_wave (n + 12 * hx)"
  define w' where "w' = hslToHex_wave (n + H' / 30)"
  have mm: "cmin \<le> cmax" "0 \<le> cmin" "cmax \<le> 1"
    using u by (auto simp: cmax cmin)
  have lx: "0 \<le> lx" "lx \<le> 1" using mm by (simp_all add: lx_def)
  have a: "0 \<le> a" "a \<le> 1 / 2" using mm by (simp_all add: a_def)
  have mu: "0 \<le> mu" "mu \<le> 1 / 2" unfolding mu_def using lx by linarith+
  have hx: "0 \<le> hx" "hx \<le> 1" using hexToHSL_hue_range [of r g b] by (simp_all add: hx_def)
  note f1 = f1 [folded lx_def]
  note f2 = f2 [folded sx_def]
  have f3': "\<bar>(n + H' / 30) - (n + 12 * hx)\<bar> \<le> 1 / 60 + 1 / 1000000"
    using f3 unfolding hx_def by argo
  have S1: "\<bar>S'\<bar> \<le> 1" using S' by argo
  have chroma: "sx * mu = a"
    unfolding sx_def mu_def lx_def a_def by (rule hexToHSL_sat_chroma [OF u cmax cmin])
  have f6: "\<bar>mu' - mu\<bar> \<le> 1 / 200 + 1 / 1000000"
    using min_complement_lipschitz [of L' lx] f1 unfolding mu_def mu'_def by (rule order_trans)
  have w': "\<bar>w'\<bar> \<le> 1"
    using hslToHex_wave_range [of "n + H' / 30"] unfolding w'_def by argo
  have "\<bar>w' - w\<bar> \<le> \<bar>(n + H' / 30) - (n + 12 * hx)\<bar>"
    unfolding w_def w'_def
    by (rule hslToHex_wave_lipschitz) (use n hx H' in simp_all)
  with f3' have f7: "\<bar>w' - w\<bar> \<le> 1 / 60 + 1 / 1000000" by argo
  have mu2: "\<bar>mu\<bar> \<le> 1 / 2" using mu by argo
  have a2: "\<bar>a\<bar> \<le> 1 / 2" using a by argo
  have t1: "\<bar>S' * (mu' - mu)\<bar> \<le> 1 * (1 / 200 + 1 / 1000000)"
    by (rule abs_prod_bound [OF S1 f6])
  have t2: "\<bar>(S' - sx) * mu\<bar> \<le> (1 / 200 + 1 / 1000000) * (1 / 2)"
    by (rule abs_prod_bound [OF f2 mu2])
  have da: "S' * mu' - a = S' * (mu' - mu) + (S' - sx) * mu"
    by (simp add: chroma [symmetric] algebra_simps)
  have f8: "\<bar>S' * mu' - a\<bar> \<le> 3 / 400 + 2 / 1000000"
    unfolding da using t1 t2 by argo
  have t3: "\<bar>(S' * mu' - a) * w'\<bar> \<le> (3 / 400 + 2 / 1000000) * 1"
    by (rule abs_prod_bound [OF f8 w'])
  have t4: "\<bar>a * (w' - w)\<bar> \<le> 1 / 2 * (1 / 60 + 1 / 1000000)"
    by (rule abs_prod_bound [OF a2 f7])
  have c: "c = lx - a * w"
    using exact by (simp add: lx_def a_def w_def hx_def)
  have "L' - S' * mu' * w' - (lx - a * w) = (L' - lx) - ((S' * mu' - a) * w' + a * (w' - w))"
    by (simp add: algebra_simps)
  then have "\<bar>L' - S' * mu' * w' - (lx - a * w)\<bar> \<le> 1 / 48 + 4 / 1000000"
    using f1 t3 t4 by argo
  then show ?thesis unfolding c mu'_def w'_def .
qed

lemma roundtrip_byte:
  assumes "\<bar>v - 255 * E\<bar> \<le> 1 / 100000000" "\<bar>E - real R / 255\<bar> \<le> 1 / 48 + 4 / 1000000"
    and "0 \<le> Math_round v"
  shows "\<bar>int (nat (Math_round v)) - int R\<bar> \<le> 5"
proof -
  have "\<bar>v - real R\<bar> < 5 + 1 / 2"
    using assms(1,2) by argo
  then have "\<bar>v - of_int (int R)\<bar> < of_int 5 + 1 / 2"
    by simp
  then have "\<bar>Math_round v - int R\<bar> \<le> 5" by (rule Math_round_near)
  with assms(3) show ?thesis by simp
qed

lemma roundtrip_channels:
  assumes ch: "hexChannels P = Some (R, G, B)" and le: "R \<le> 255" "G \<le> 255" "B \<le> 255"
  shows "\<exists>hsl R' G' B'. hexToHSL P = Inr hsl
     \<and> hexChannels (hslToHex (h hsl) (s hsl) (l hsl)) = Some (R', G', B')
     \<and> \<bar>int R' - int R\<bar> \<le> 5 \<and> \<bar>int G' - int G\<bar> \<le> 5 \<and> \<bar>int B' - int B\<bar> \<le> 5"
proof -
  define r where "r = real R / 255"
  define g where "g = real G / 255"
  define b where "b = real B / 255"
  define cmax where "cmax = max (max r g) b"
  define cmin where "cmin = min (min r g) b"
  define H where "H = Math_round (fl (hexToHSL_h (fl r) (fl g) (fl b) * 360))"
  define S where "S = Math_round (fl (hexToHSL_s (fl r) (fl g) (fl b) * 100))"
  define L where "L = Math_round (fl (hexToHSL_l (fl r) (fl g) (fl b) * 100))"
  define l1 where "l1 = fl (real_of_int L / 100)"
  define a where "a = fl (fl (real_of_int S / 100) * min l1 (fl (1 - l1)))"
  define v where "v n = fl (255 * hslToHex_color (of_int H) l1 a n)" for n
  define z where "z n = Math_round (v n)" for n
  define E where "E n = real_of_int L / 100
      - real_of_int S / 100 * min (real_of_int L / 100) (1 - real_of_int L / 100)
        * hslToHex_wave (n + real_of_int H / 30)" for n
  have u: "0 \<le> r" "r \<le> 1" "0 \<le> g" "g \<le> 1" "0 \<le> b" "b \<le> 1"
    using le by (simp_all add: r_def g_def b_def)
  have hsl: "hexToHSL P = Inr \<lparr> h = of_int H, s = of_int S, l = of_int L \<rparr>"
    unfolding H_def S_def L_def r_def g_def b_def
    by (rule hexToHSL_channels [OF ch refl refl refl])
  note rd = hexToHSL_rounded [OF le refl refl refl,
      folded r_def g_def b_def, OF H_def S_def L_def, folded cmax_def cmin_def]
  have Hr': "(0::real) \<le> of_int H" "real_of_int H \<le> 360" using rd(1) by simp_all
  have Sr': "(0::real) \<le> of_int S" "real_of_int S \<le> 100" using rd(2) by simp_all
  have Lr': "(0::real) \<le> of_int L" "real_of_int L \<le> 100" using rd(3) by simp_all
  have S1: "0 \<le> real_of_int S / 100" "real_of_int S / 100 \<le> 1" using Sr' by simp_all
  have out: "hexChannels (hslToHex (of_int H) (of_int S) (of_int L))
      = Some (nat (z 0), nat (z 8), nat (z 4))"
    unfolding z_def v_def
    by (rule hexChannels_hslToHex [OF Sr' Lr' l1_def a_def refl refl refl])
  note l = normalised_unit [OF Lr', folded l1_def]
  note s = normalised_unit [OF Sr']
  have unit: "0 \<le> hslToHex_color (of_int H) l1 a n \<and> hslToHex_color (of_int H) l1 a n \<le> 1" for n
    by (rule hslToHex_color_unit [OF l s(2,3) a_def])
  have z0: "0 \<le> z n" for n
    unfolding z_def v_def
    using Math_round_byte [of "hslToHex_color (of_int H) l1 a n"] unit [of n] by simp
  have close: "\<bar>v n - 255 * E n\<bar> \<le> 1 / 100000000" if "0 \<le> n" "n \<le> 8" for n
    unfolding v_def E_def
    by (rule hslToHex_byte_close [OF Hr' Sr' Lr' that l1_def a_def])
  note inv = hexToHSL_hue_inverse [OF cmax_def cmin_def refl refl]
  have near: "\<bar>E n - c\<bar> \<le> 1 / 48 + 4 / 1000000"
    if "0 \<le> n" "n \<le> 8"
      and "(cmax + cmin) / 2 - (cmax - cmin) / 2 * hslToHex_wave (n + 12 * hexToHSL_hue r g b) = c"
    for n c
    unfolding E_def
    by (rule roundtrip_exact [OF u cmax_def cmin_def rd(6,5,4) S1 Hr' that])
  have c0: "\<bar>int (nat (z 0)) - int R\<bar> \<le> 5"
    unfolding z_def
    by (rule roundtrip_byte [OF close [of 0]])
      (use near [of 0 r] inv z0 [of 0] in \<open>simp_all add: r_def z_def\<close>)
  have c8: "\<bar>int (nat (z 8)) - int G\<bar> \<le> 5"
    unfolding z_def
    by (rule roundtrip_byte [OF close [of 8]])
      (use near [of 8 g] inv z0 [of 8] in \<open>simp_all add: g_def z_def\<close>)
  have c4: "\<bar>int (nat (z 4)) - int B\<bar> \<le> 5"
    unfolding z_def
    by (rule roundtrip_byte [OF close [of 4]])
      (use near [of 4 b] inv z0 [of 4] in \<open>simp_all add: b_def z_def\<close>)
  define p where "p = \<lparr> h = real_of_int H, s = of_int S, l = of_int L \<rparr>"
  have 1: "hexToHSL P = Inr p" by (simp add: hsl p_def)
  have 2: "hexChannels (hslToHex (h p) (s p) (l p)) = Some (nat (z 0), nat (z 8), nat (z 4))"
    by (simp add: out p_def)
  from 1 2 c0 c8 c4 show ?thesis by blast
qed

section \<open>Results on given colours\<close>

text \<open>
  When the exact hue, saturation and lightness of the channel bytes are not within
  \<open>10 ^ -5\<close> of a rounding tie, the rounded triple that \<open>hexToHSL\<close> computes in doubles is
  the rounded exact triple.
\<close>

lemma hexToHSL_value:
  assumes ch: "hexChannels hex = Some (R, G, B)" and le: "R \<le> 255" "G \<le> 255" "B \<le> 255"
    and H: "of_int H - 1 / 2 + 1 / 100000
              \<le> hexToHSL_hue (real R / 255) (real G / 255) (real B / 255) * 360"
           "hexToHSL_hue (real R / 255) (real G / 255) (real B / 255) * 360
              < of_int H + 1 / 2 - 1 / 100000"
    and S: "of_int S - 1 / 2 + 1 / 100000
              \<le> hexToHSL_sat (real R / 255) (real G / 255) (real B / 255) * 100"
           "hexToHSL_sat (real R / 255) (real G / 255) (real B / 255) * 100
              < of_int S + 1 / 2 - 1 / 100000"
    and L: "of_int L - 1 / 2 + 1 / 100000
              \<le> (real (max (max R G) B) / 255 + real (min (min R G) B) / 255) / 2 * 100"
           "(real (max (max R G) B) / 255 + real (min (min R G) B) / 255) / 2 * 100
              < of_int L + 1 / 2 - 1 / 100000"
  shows "hexToHSL hex = Inr \<lparr> h = of_int H, s = of_int S, l = of_int L \<rparr>"
proof -
  note sc = hexToHSL_scaled_close [OF le refl refl refl refl refl]
  show ?thesis
    unfolding hexToHSL_channels [OF ch refl refl refl]
      Math_round_decide [OF sc(1) H] Math_round_decide [OF sc(2) S] Math_round_decide [OF sc(3) L]
    by (rule refl)
qed

text \<open>
  Likewise for \<open>hslToHex\<close>: when no exact channel, scaled to 255, is within \<open>10 ^ -8\<close> of a
  rounding tie, the bytes computed in doubles are the rounded exact channels.
\<close>

lemma hslToHex_value:
  assumes hue: "0 \<le> hue" "hue \<le> 360" and sat: "0 \<le> sat" "sat \<le> 100"
    and lig: "0 \<le> lig" "lig \<le> 100"
    and A: "A = sat / 100 * min (lig / 100) (1 - lig / 100)"
    and R: "of_int (int R) - 1 / 2 + 1 / 100000000 \<le> 255 * (lig / 100 - A * hslToHex_wave (0 + hue / 30))"
           "255 * (lig / 100 - A * hslToHex_wave (0 + hue / 30)) < of_int (int R) + 1 / 2 - 1 / 100000000"
    and G: "of_int (int G) - 1 / 2 + 1 / 100000000 \<le> 255 * (lig / 100 - A * hslToHex_wave (8 + hue / 30))"
           "255 * (lig / 100 - A * hslToHex_wave (8 + hue / 30)) < of_int (int G) + 1 / 2 - 1 / 100000000"
    and B: "of_int (int B) - 1 / 2 + 1 / 100000000 \<le> 255 * (lig / 100 - A * hslToHex_wave (4 + hue / 30))"
           "255 * (lig / 100 - A * hslToHex_wave (4 + hue / 30)) < of_int (int B) + 1 / 2 - 1 / 100000000"
  shows "hslToHex hue sat lig = CHR ''#'' # [digitChar (R div 16), digitChar (R mod 16),
      digitChar (G div 16), digitChar (G mod 16), digitChar (B div 16), digitChar (B mod 16)]"
proof -
  define l1 where "l1 = fl (lig / 100)"
  define a where "a = fl (fl (sat / 100) * min l1 (fl (1 - l1)))"
  have close: "\<bar>fl (255 * hslToHex_color hue l1 a n)
      - 255 * (lig / 100 - A * hslToHex_wave (n + hue / 30))\<bar> \<le> 1 / 100000000"
    if "0 \<le> n" "n \<le> 8" for n
    unfolding A by (rule hslToHex_byte_close [OF hue sat lig that l1_def a_def])
  have r: "Math_round (fl (255 * hslToHex_color hue l1 a 0)) = int R"
    by (rule Math_round_decide [OF close R]) simp_all
  have g: "Math_round (fl (255 * hslToHex_color hue l1 a 8)) = int G"
    by (rule Math_round_decide [OF close G]) simp_all
  have b: "Math_round (fl (255 * hslToHex_color hue l1 a 4)) = int B"
    by (rule Math_round_decide [OF close B]) simp_all
  show ?thesis
    by (rule hslToHex_digits(1) [OF sat lig l1_def a_def]) (simp_all add: r g b)
qed

lemma hexChannels_6366f1: "hexChannels ''#6366f1'' = Some (99, 102, 241)"
  by (simp add: hexChannels_def HEX_REGEX_exec_def hexDigit_def parseInt16_def hexVal_def)

lemma hexChannels_ff0001: "hexChannels ''#ff0001'' = Some (255, 0, 1)"
  by (simp add: hexChannels_def HEX_REGEX_exec_def hexDigit_def parseInt16_def hexVal_def)

lemma hexChannels_02e4e6: "hexChannels ''#02e4e6'' = Some (2, 228, 230)"
  by (simp add: hexChannels_def HEX_REGEX_exec_def hexDigit_def parseInt16_def hexVal_def)

lemma hexChannels_02dfe3: "hexChannels ''#02dfe3'' = Some (2, 223, 227)"
  by (simp add: hexChannels_def HEX_REGEX_exec_def hexDigit_def parseInt16_def hexVal_def)

lemma hexToHSL_6366f1: "hexToHSL ''#6366f1'' = Inr \<lparr> h = 239, s = 84, l = 67 \<rparr>"
  using hexToHSL_value [OF hexChannels_6366f1, of 239 84 67]
  by (simp add: hexToHSL_hue_def hexToHSL_sat_def Let_def)

lemma hexToHSL_ff0001: "hexToHSL ''#ff0001'' = Inr \<lparr> h = 360, s = 100, l = 50 \<rparr>"
  using hexToHSL_value [OF hexChannels_ff0001, of 360 100 50]
  by (simp add: hexToHSL_hue_def hexToHSL_sat_def Let_def)

lemma hexToHSL_02e4e6: "hexToHSL ''#02e4e6'' = Inr \<lparr> h = 181, s = 98, l = 45 \<rparr>"
  using hexToHSL_value [OF hexChannels_02e4e6, of 181 98 45]
  by (simp add: hexToHSL_hue_def hexToHSL_sat_def Let_def)

lemma hslToHex_181_98_45: "hslToHex 181 98 45 = ''#02dfe3''"
proof -
  have w: "hslToHex_wave (181 / 30) = 1" "hslToHex_wave (421 / 30) = 421 / 30 - 15"
    "hslToHex_wave (301 / 30) = - 1"
    by (simp_all add: hslToHex_wave_pieces hslToHex_wave_pieces_high)
  have "hslToHex 181 98 45 = CHR ''#'' # [digitChar (2 div 16), digitChar (2 mod 16),
      digitChar (223 div 16), digitChar (223 mod 16), digitChar (227 div 16), digitChar (227 mod 16)]"
    by (rule hslToHex_value [OF _ _ _ _ _ _ refl]) (simp_all add: w)
  then show ?thesis by (simp add: digitChar_def)
qed

lemma valid_ff0001: "isValidHex ''#ff0001''"
  by (simp add: isValidHex_def HEX_REGEX_exec_def hexDigit_def)

lemma valid_02e4e6: "isValidHex ''#02e4e6''"
  by (simp add: isValidHex_def HEX_REGEX_exec_def hexDigit_def)

text \<open>
  The hue of the result is the rounded product, which is not wrapped: it is 360 exactly
  when the product is at least 359.5.
\<close>

lemma hexToHSL_hue_unwrapped:
  assumes ch: "hexChannels hex = Some (R, G, B)" and le: "R \<le> 255" "G \<le> 255" "B \<le> 255"
  shows "\<exists>hsl. hexToHSL hex = Inr hsl
       \<and> h hsl = of_int (Math_round (fl (hexToHSL_h
             (fl (real R / 255)) (fl (real G / 255)) (fl (real B / 255)) * 360)))
       \<and> 0 \<le> h hsl \<and> h hsl \<le> 360
       \<and> (h hsl = 360 \<longleftrightarrow>
            359.5 \<le> fl (hexToHSL_h (fl (real R / 255)) (fl (real G / 255)) (fl (real B / 255)) * 360))"
proof -
  define q where "q = fl (hexToHSL_h (fl (real R / 255)) (fl (real G / 255)) (fl (real B / 255)) * 360)"
  define H where "H = Math_round q"
  note r = hexToHSL_rounded(1) [OF le refl refl refl refl refl refl, folded q_def H_def]
  note b = Math_round_bounds [of q, folded H_def]
  have "H = 360 \<longleftrightarrow> 359.5 \<le> q"
  proof
    assume "H = 360"
    with b show "359.5 \<le> q" by simp
  next
    assume "359.5 \<le> q"
    with b have "real_of_int 359 < of_int H" by simp
    then have "359 < H" by (simp only: of_int_less_iff)
    with r show "H = 360" by simp
  qed
  moreover have "real_of_int H = 360 \<longleftrightarrow> H = 360" by (rule of_int_eq_numeral_iff)
  ultimately have "real_of_int H = 360 \<longleftrightarrow> 359.5 \<le> q" by (rule trans [rotated])
  moreover have "0 \<le> real_of_int H" "real_of_int H \<le> 360" using r by simp_all
  ultimately show ?thesis
    unfolding hexToHSL_channels [OF ch refl refl refl] q_def [symmetric] H_def [symmetric]
    by simp
qed

section \<open>Rounding ties\<close>

text \<open>
  In its binade a number is rounded to the nearest multiple of \<open>2 ^ -p\<close>, where \<open>p\<close> is
  such that the number scaled by \<open>2 ^ p\<close> has 53 binary digits before the point.
\<close>

lemma fl_binade:
  assumes "2 ^ 52 \<le> \<bar>x\<bar> * 2 ^ p" "\<bar>x\<bar> * 2 ^ p < 2 ^ 53" "p \<le> 1074"
  shows "fl x = of_int (roundHalfEven (x * 2 ^ p)) / 2 ^ p"
proof -
  define c where "c = 1074 - p"
  have d: "denorm = 2 ^ p * 2 ^ c"
    using assms(3) by (simp add: denorm_def c_def power_add [symmetric])
  have "ulp x = 2 ^ c / denorm"
  proof (rule ulp_binade)
    have "(2::real) ^ (52 + c) / denorm = 2 ^ 52 / 2 ^ p" by (simp add: d power_add)
    also have "\<dots> \<le> \<bar>x\<bar>" using assms(1) by (simp add: field_simps)
    finally show "2 ^ (52 + c) / denorm \<le> \<bar>x\<bar>" .
    have "\<bar>x\<bar> < 2 ^ 53 / 2 ^ p" using assms(2) by (simp add: field_simps)
    also have "\<dots> = 2 ^ (53 + c) / denorm" by (simp add: d power_add)
    finally show "\<bar>x\<bar> < 2 ^ (53 + c) / denorm" .
  qed
  then have "ulp x = 1 / 2 ^ p" by (simp add: d)
  then show ?thesis by (simp add: fl_def)
qed

text \<open>
  \<open>hslToHex(0, 80, 50)\<close>: in exact arithmetic the green and the blue channel are
  \<open>255 * (0.5 - 0.4) = 25.5\<close>, a tie that \<^verbatim>\<open>Math.round\<close> would take to 26. In doubles,
  \<open>80 / 100\<close> is rounded up, the channel is \<open>25.5 - 2 ^ -47\<close> and the byte is 25.
\<close>

lemma fl_4_5: "fl (4 / 5) = 7205759403792794 / 2 ^ 53"
  using fl_binade [of "4 / 5" 53] by (simp add: roundHalfEven_def Let_def)

lemma fl_half: "fl (1 / 2) = 1 / 2"
  using fl_binade [of "1 / 2" 53] by (simp add: roundHalfEven_def Let_def)

lemma fl_small_ints: "fl 3 = 3" "fl 5 = 5" "fl 9 = 9"
  using fl_of_int [of 3] fl_of_int [of 5] fl_of_int [of 9] by simp_all

lemma hslToHex_0_80_50: "hslToHex 0 80 50 = ''#e61919''"
proof -
  define l1 :: real where "l1 = fl (50 / 100)"
  define a :: real where "a = fl (fl (80 / 100) * min l1 (fl (1 - l1)))"
  have l1: "l1 = 1 / 2" by (simp add: l1_def fl_half)
  have a: "a = 7205759403792794 / 2 ^ 54"
    unfolding a_def l1 using fl_binade [of "7205759403792794 / 2 ^ 54" 54]
    by (simp add: fl_4_5 fl_half roundHalfEven_def Let_def)
  have k: "js_rem 0 12 = 0" "js_rem 8 12 = 8" "js_rem 4 12 = 4"
    by (simp_all add: js_rem_12_low)
  have fa: "fl a = a" unfolding a_def by (rule fl_idem)
  have c0: "hslToHex_color 0 l1 a 0 = 8106479329266893 / 2 ^ 53"
    unfolding hslToHex_color_def Let_def
    using fl_binade [of "8106479329266893 / 2 ^ 53" 53]
    by (simp add: fl_0 k fl_minus fl_small_ints fa) (simp add: l1 a roundHalfEven_def Let_def)
  have c8: "hslToHex_color 0 l1 a 8 = 7205759403792792 / 2 ^ 56"
    unfolding hslToHex_color_def Let_def
    using fl_binade [of "7205759403792792 / 2 ^ 56" 56]
    by (simp add: fl_0 k fl_numerals fl_small_ints fa) (simp add: l1 a roundHalfEven_def Let_def)
  have c4: "hslToHex_color 0 l1 a 4 = 7205759403792792 / 2 ^ 56"
    unfolding hslToHex_color_def Let_def
    using fl_binade [of "7205759403792792 / 2 ^ 56" 56]
    by (simp add: fl_0 k fl_numerals fl_small_ints fa) (simp add: l1 a roundHalfEven_def Let_def)
  have v0: "fl (255 * (8106479329266893 / 2 ^ 53)) = 459 / 2"
    using fl_binade [of "255 * (8106479329266893 / 2 ^ 53)" 45]
    by (simp add: roundHalfEven_def Let_def)
  have v8: "fl (255 * (7205759403792792 / 2 ^ 56)) = 7177611906121726 / 2 ^ 48"
    using fl_binade [of "255 * (7205759403792792 / 2 ^ 56)" 48]
    by (simp add: roundHalfEven_def Let_def)
  have r: "nat (Math_round (fl (255 * hslToHex_color 0 l1 a 0))) = 230"
    "nat (Math_round (fl (255 * hslToHex_color 0 l1 a 8))) = 25"
    "nat (Math_round (fl (255 * hslToHex_color 0 l1 a 4))) = 25"
    unfolding c0 c8 c4 v0 v8 by (simp_all add: Math_round_def)
  have "hslToHex 0 80 50 = CHR ''#'' #
     [digitChar (nat (Math_round (fl (255 * hslToHex_color 0 l1 a 0))) div 16),
      digitChar (nat (Math_round (fl (255 * hslToHex_color 0 l1 a 0))) mod 16),
      digitChar (nat (Math_round (fl (255 * hslToHex_color 0 l1 a 8))) div 16),
      digitChar (nat (Math_round (fl (255 * hslToHex_color 0 l1 a 8))) mod 16),
      digitChar (nat (Math_round (fl (255 * hslToHex_color 0 l1 a 4))) div 16),
      digitChar (nat (Math_round (fl (255 * hslToHex_color 0 l1 a 4))) mod 16)]"
    by (rule hslToHex_digits(1) [OF _ _ _ _ l1_def a_def refl refl refl]) simp_all
  then show ?thesis unfolding r by (simp add: digitChar_def)
qed

text \<open>
  \<open>hexToHSL('#101d38')\<close>: the channels are 16, 29 and 56, and in exact arithmetic the hue
  is \<open>((16 - 29) / 40 + 4) / 6 * 360 = 220.5\<close>, a tie that \<^verbatim>\<open>Math.round\<close> would take to
  221. In doubles the product is \<open>220.5 - 2 ^ -45\<close> and the hue is 220.
\<close>

lemma hexChannels_101d38: "hexChannels ''#101d38'' = Some (16, 29, 56)"
  by (simp add: hexChannels_def HEX_REGEX_exec_def hexDigit_def parseInt16_def hexVal_def)

lemma hexToHSL_101d38: "hexToHSL ''#101d38'' = Inr \<lparr> h = 220, s = 56, l = 14 \<rparr>"
proof -
  define r :: real where "r = fl (real 16 / 255)"
  define g :: real where "g = fl (real 29 / 255)"
  define b :: real where "b = fl (real 56 / 255)"
  define d where "d = fl (b - r)"
  define t1 where "t1 = fl (r - g)"
  define t2 where "t2 = fl (t1 / d)"
  define t3 where "t3 = fl (t2 + 4)"
  define t4 where "t4 = fl (t3 / 6)"
  define q where "q = fl (t4 * 360)"
  have r: "r = 4521260802379792 / 2 ^ 56"
    unfolding r_def using fl_binade [of "16 / 255" 56] by (simp add: roundHalfEven_def Let_def)
  have g: "g = 8194785204313373 / 2 ^ 56"
    unfolding g_def using fl_binade [of "29 / 255" 56] by (simp add: roundHalfEven_def Let_def)
  have b: "b = 7912206404164636 / 2 ^ 55"
    unfolding b_def using fl_binade [of "56 / 255" 55] by (simp add: roundHalfEven_def Let_def)
  have d: "d = 5651576002974740 / 2 ^ 55"
    unfolding d_def b r
    using fl_binade [of "7912206404164636 / 2 ^ 55 - 4521260802379792 / 2 ^ 56" 55]
    by (simp add: roundHalfEven_def Let_def)
  have t1: "t1 = - (7347048803867162 / 2 ^ 57)"
    unfolding t1_def r g
    using fl_binade [of "4521260802379792 / 2 ^ 56 - 8194785204313373 / 2 ^ 56" 57]
    by (simp add: roundHalfEven_def Let_def)
  have t2: "t2 = - (5854679515581645 / 2 ^ 54)"
    unfolding t2_def t1 d
    using fl_binade [of "- (7347048803867162 / 2 ^ 57) / (5651576002974740 / 2 ^ 55)" 54]
    by (simp add: roundHalfEven_def Let_def)
  have t3: "t3 = 8275364315293286 / 2 ^ 51"
    unfolding t3_def t2
    using fl_binade [of "- (5854679515581645 / 2 ^ 54) + 4" 51]
    by (simp add: roundHalfEven_def Let_def)
  have t4: "t4 = 5516909543528857 / 2 ^ 53"
    unfolding t4_def t3
    using fl_binade [of "8275364315293286 / 2 ^ 51 / 6" 53]
    by (simp add: roundHalfEven_def Let_def)
  have q: "q = 7758154045587455 / 2 ^ 45"
    unfolding q_def t4
    using fl_binade [of "5516909543528857 / 2 ^ 53 * 360" 45]
    by (simp add: roundHalfEven_def Let_def)
  have m: "max (max r g) b = b" "min (min r g) b = r" "b \<noteq> r" "b \<noteq> g"
    by (simp_all add: r g b)
  have "hexToHSL_h r g b = t4"
    unfolding hexToHSL_h_def Let_def m
    by (simp add: m(3,4) t4_def t3_def t2_def t1_def d_def)
  then have hq: "fl (hexToHSL_h r g b * 360) = q" by (simp add: q_def)
  have H: "Math_round (fl (hexToHSL_h r g b * 360)) = 220"
    unfolding hq q by (simp add: Math_round_def)
  note sc = hexToHSL_scaled_close [of 16 29 56, OF _ _ _ r_def g_def b_def refl refl]
  have S: "Math_round (fl (hexToHSL_s r g b * 100)) = 56"
    by (rule Math_round_decide [OF sc(2)]) (simp_all add: hexToHSL_sat_def Let_def)
  have L: "Math_round (fl (hexToHSL_l r g b * 100)) = 14"
    by (rule Math_round_decide [OF sc(3)]) simp_all
  show ?thesis
    unfolding hexToHSL_channels [OF hexChannels_101d38 r_def g_def b_def] H S L by simp
qed

section \<open>Properties\<close>

text \<open>
  C8: \<open>isValidHex\<close> holds exactly for the strings made of six hexadecimal digits in
  either case, with or without a leading \<^verbatim>\<open>#\<close>; it accepts \<^verbatim>\<open>#6366f1\<close> and
  \<^verbatim>\<open>6366f1\<close> and rejects \<^verbatim>\<open>#f00\<close>, the empty string and \<^verbatim>\<open>#zzzzzz\<close>.
\<close>

theorem C8_isValidHex_pattern:
  "(isValidHex v \<longleftrightarrow>
      (\<exists>ds. length ds = 6 \<and> list_all (\<lambda>c. c \<in> set ''0123456789abcdefABCDEF'') ds
            \<and> (v = CHR ''#'' # ds \<or> v = ds)))
   \<and> isValidHex ''#6366f1'' \<and> isValidHex ''6366f1''
   \<and> \<not> isValidHex ''#f00'' \<and> \<not> isValidHex '''' \<and> \<not> isValidHex ''#zzzzzz''"
proof -
  have cls: "(\<lambda>c. c \<in> set ''0123456789abcdefABCDEF'') = hexDigit"
    by (rule ext) (simp only: hexDigit_iff)
  have nohash: "\<not> hexDigit (CHR ''#'')" by (simp add: hexDigit_def)
  have "isValidHex v \<longleftrightarrow>
      (\<exists>ds. length ds = 6 \<and> list_all hexDigit ds \<and> (v = CHR ''#'' # ds \<or> v = ds))"
  proof (cases v)
    case Nil
    then show ?thesis by (auto simp: isValidHex_def HEX_REGEX_exec_def)
  next
    case (Cons c cs)
    show ?thesis
    proof (cases "c = CHR ''#''")
      case True
      with Cons nohash show ?thesis
        by (auto simp: isValidHex_def HEX_REGEX_exec_def Let_def split: if_splits)
    next
      case False
      with Cons show ?thesis
        by (auto simp: isValidHex_def HEX_REGEX_exec_def Let_def split: if_splits)
    qed
  qed
  moreover have "isValidHex ''#6366f1''" "isValidHex ''6366f1''"
    "\<not> isValidHex ''#f00''" "\<not> isValidHex ''''" "\<not> isValidHex ''#zzzzzz''"
    by (simp_all add: isValidHex_def HEX_REGEX_exec_def hexDigit_def)
  ultimately show ?thesis unfolding cls by blast
qed

theorem C8_isValidHex_pattern_witness:
  "isValidHex ''#A0b1C2'' \<and> \<not> isValidHex ''#A0b1C2x''"
proof -
  have "\<not> (\<exists>ds. length ds = 6 \<and> list_all (\<lambda>c. c \<in> set ''0123456789abcdefABCDEF'') ds
            \<and> (''#A0b1C2x'' = CHR ''#'' # ds \<or> ''#A0b1C2x'' = ds))"
    by auto
  moreover have "\<exists>ds. length ds = 6 \<and> list_all (\<lambda>c. c \<in> set ''0123456789abcdefABCDEF'') ds
            \<and> (''#A0b1C2'' = CHR ''#'' # ds \<or> ''#A0b1C2'' = ds)"
    by (rule exI [of _ "''A0b1C2''"]) simp
  ultimately show ?thesis
    using C8_isValidHex_pattern [of "''#A0b1C2''"] C8_isValidHex_pattern [of "''#A0b1C2x''"]
    by blast
qed

text \<open>
  C1: the claim gives \<open>{h: 239, s: 89, l: 64}\<close> for \<^verbatim>\<open>#6366f1\<close>. The channels are
  99, 102 and 241 of 255, so the lightness is \<open>(241 + 99) / 510\<close>, which rounds to 67, and
  the saturation is \<open>142 / 170\<close>, which rounds to 84: \<open>hexToHSL\<close> does not return the
  record of the claim.
\<close>

theorem C1_hexToHSL_6366f1_counterexample:
  "hexToHSL ''#6366f1'' \<noteq> Inr \<lparr> h = 239, s = 89, l = 64 \<rparr>"
  by (simp add: hexToHSL_6366f1)

text \<open>
  C1, as amended: \<open>hexToHSL\<close> applied to \<^verbatim>\<open>#6366f1\<close> returns the record with hue 239,
  saturation 84 and lightness 67.
\<close>

theorem C1_hexToHSL_6366f1:
  "hexToHSL ''#6366f1'' = Inr \<lparr> h = 239, s = 84, l = 67 \<rparr>"
  by (rule hexToHSL_6366f1)

text \<open>
  C2: the claim lets \<open>getContrastTextColor\<close> fail on a string that does not match the
  pattern. The failed match in \<open>getLuminance\<close> returns 0 instead of throwing, so the function
  returns a colour: for \<^verbatim>\<open>xyz\<close> it returns \<^verbatim>\<open>#FFFFFF\<close>.
\<close>

theorem C2_getContrastTextColor_invalid_counterexample:
  "\<not> isValidHex ''xyz'' \<and> getContrastTextColor ''xyz'' = Inr ''#FFFFFF''"
  using not_valid_xyz getContrastTextColor_invalid [of "''xyz''"] by simp

text \<open>
  C2, as amended: on a string that does not match the pattern, \<open>hexToHSL\<close> and
  \<open>generateShadesFromPrimary\<close> fail with the error for an invalid colour, and
  \<open>getContrastTextColor\<close> does not fail but returns \<^verbatim>\<open>#FFFFFF\<close>.
\<close>

theorem C2_invalid_hex_errors:
  assumes "\<not> isValidHex str"
  shows "hexToHSL str = Inl (Error (''Invalid hex color: '' @ str))
       \<and> generateShadesFromPrimary str = Inl (Error (''Invalid hex color: '' @ str))
       \<and> getContrastTextColor str = Inr ''#FFFFFF''"
  using assms
  by (simp add: hexToHSL_invalid generateShadesFromPrimary_def getContrastTextColor_invalid)

theorem C2_invalid_hex_errors_witness:
  "\<not> isValidHex ''#f00''
   \<and> hexToHSL ''#f00'' = Inl (Error ''Invalid hex color: #f00'')
   \<and> generateShadesFromPrimary ''#f00'' = Inl (Error ''Invalid hex color: #f00'')
   \<and> getContrastTextColor ''#f00'' = Inr ''#FFFFFF''"
proof -
  have nv: "\<not> isValidHex ''#f00''"
    by (simp add: isValidHex_def HEX_REGEX_exec_def)
  show ?thesis using nv C2_invalid_hex_errors [OF nv] by simp
qed

text \<open>
  C9: \<open>getContrastTextColor\<close> returns a colour for every string. When the string does not
  match the pattern its luminance is 0, the ratio against white is 21, the ratio against
  black is \<open>16573 / 16473\<close>, between 1.006 and 1.007, and the result is \<^verbatim>\<open>#FFFFFF\<close>.
\<close>

theorem C9_getContrastTextColor_total:
  "(\<exists>c. getContrastTextColor str = Inr c)
   \<and> (\<not> isValidHex str \<longrightarrow>
        getLuminance str = 0
      \<and> getContrastRatio ''#FFFFFF'' str = 21
      \<and> getContrastRatio ''#010101'' str = 16573 / 16473
      \<and> 1.006 < getContrastRatio ''#010101'' str
      \<and> getContrastRatio ''#010101'' str < 1.007
      \<and> getContrastTextColor str = Inr ''#FFFFFF'')"
  by (simp add: getContrastTextColor_total getLuminance_invalid getContrastRatio_white_invalid
      getContrastRatio_black_invalid getContrastTextColor_invalid)

theorem C9_getContrastTextColor_total_witness:
  "\<not> isValidHex ''not a colour''
   \<and> getLuminance ''not a colour'' = 0
   \<and> getContrastRatio ''#FFFFFF'' ''not a colour'' = 21
   \<and> getContrastRatio ''#010101'' ''not a colour'' = 16573 / 16473
   \<and> getContrastTextColor ''not a colour'' = Inr ''#FFFFFF''"
proof -
  have nv: "\<not> isValidHex ''not a colour''"
    by (simp add: isValidHex_def HEX_REGEX_exec_def)
  show ?thesis using nv C9_getContrastTextColor_total [of "''not a colour''"] by simp
qed

text \<open>
  C5: for valid hex strings \<open>A\<close> and \<open>B\<close> the contrast ratio of \<open>A\<close> and \<open>B\<close> is that of
  \<open>B\<close> and \<open>A\<close>, and it lies between 1 and 21.
\<close>

theorem C5_getContrastRatio_symmetric_range:
  assumes "isValidHex A" and "isValidHex B"
  shows "getContrastRatio A B = getContrastRatio B A
       \<and> 1 \<le> getContrastRatio A B \<and> getContrastRatio A B \<le> 21"
  using getContrastRatio_commute [of A B] getContrastRatio_range [of A B] by simp

theorem C5_getContrastRatio_symmetric_range_witness:
  "isValidHex ''#FFFFFF'' \<and> isValidHex ''#767676''
   \<and> getContrastRatio ''#FFFFFF'' ''#767676'' = getContrastRatio ''#767676'' ''#FFFFFF''
   \<and> 1 \<le> getContrastRatio ''#FFFFFF'' ''#767676''
   \<and> getContrastRatio ''#FFFFFF'' ''#767676'' \<le> 21"
proof -
  have w: "isValidHex ''#FFFFFF''"
    by (simp add: isValidHex_def HEX_REGEX_exec_def hexDigit_def)
  show ?thesis
    using w valid_767676 C5_getContrastRatio_symmetric_range [OF w valid_767676] by simp
qed

text \<open>
  C6: for a valid background, when the ratios of black and of white are both at least 4.5,
  and likewise when both are below 4.5, \<open>getContrastTextColor\<close> returns black if the ratio
  of black is greater than or equal to that of white, and white otherwise; so black wins
  a tie.
\<close>

theorem C6_getContrastTextColor_tie_break:
  assumes "isValidHex bg"
    and "ratioBlack = getContrastRatio ''#010101'' bg"
    and "ratioWhite = getContrastRatio ''#FFFFFF'' bg"
    and "(ratioBlack \<ge> 4.5 \<and> ratioWhite \<ge> 4.5) \<or> (ratioBlack < 4.5 \<and> ratioWhite < 4.5)"
  shows "getContrastTextColor bg
       = Inr (if ratioBlack \<ge> ratioWhite then ''#010101'' else ''#FFFFFF'')"
  using assms(4) unfolding assms(2,3) getContrastTextColor_def Let_def
  by (auto simp: not_le)

theorem C6_getContrastTextColor_tie_break_witness:
  "isValidHex ''#767676''
   \<and> getContrastRatio ''#010101'' ''#767676'' \<ge> 4.5
   \<and> getContrastRatio ''#FFFFFF'' ''#767676'' \<ge> 4.5
   \<and> getContrastRatio ''#010101'' ''#767676'' \<ge> getContrastRatio ''#FFFFFF'' ''#767676''
   \<and> getContrastTextColor ''#767676'' = Inr ''#010101''"
  using valid_767676 ratios_767676
    C6_getContrastTextColor_tie_break [OF valid_767676 refl refl, OF disjI1,
      OF conjI, OF ratios_767676(1) ratios_767676(2)]
  by simp

text \<open>
  C10: for a hue in \<open>[0, 360]\<close> and a saturation and a lightness in \<open>[0, 100]\<close>, every
  channel that \<open>hslToHex\<close> computes is in \<open>[0, 1]\<close>, its rounded byte is in \<open>0..255\<close> and is
  written with exactly two digits, and the result has seven characters, starts with
  \<^verbatim>\<open>#\<close> and satisfies \<open>isValidHex\<close>. Here \<open>l1\<close> and \<open>a\<close> are the locals \<^verbatim>\<open>l\<close> (after the
  division by 100) and \<^verbatim>\<open>a\<close> of \<open>hslToHex\<close>, as computed in doubles.
\<close>

theorem C10_hslToHex_well_formed:
  assumes "0 \<le> hue" "hue \<le> 360" "0 \<le> sat" "sat \<le> 100" "0 \<le> lig" "lig \<le> 100"
    and "l1 = fl (lig / 100)"
    and "a = fl (fl (sat / 100) * min l1 (fl (1 - l1)))"
    and "n \<in> {0, 8, 4}"
  shows "0 \<le> hslToHex_color hue l1 a n \<and> hslToHex_color hue l1 a n \<le> 1
       \<and> 0 \<le> Math_round (fl (255 * hslToHex_color hue l1 a n))
       \<and> Math_round (fl (255 * hslToHex_color hue l1 a n)) \<le> 255
       \<and> length (hslToHex_f hue l1 a n) = 2
       \<and> length (hslToHex hue sat lig) = 7
       \<and> hd (hslToHex hue sat lig) = CHR ''#''
       \<and> isValidHex (hslToHex hue sat lig)"
proof -
  note l = normalised_unit [OF assms(5,6), folded assms(7)]
  note s = normalised_unit [OF assms(3,4)]
  note c = hslToHex_color_unit [OF l s(2,3) assms(8), of hue n]
  note d = hslToHex_digits [OF assms(3-8) refl refl refl, of hue]
  have "isValidHex (hslToHex hue sat lig)"
    unfolding d(1) isValidHex_def using HEX_REGEX_exec_of_bytes [OF d(2-4)] by simp
  moreover have "length (hslToHex hue sat lig) = 7" "hd (hslToHex hue sat lig) = CHR ''#''"
    unfolding d(1) by simp_all
  moreover have "length (hslToHex_f hue l1 a n) = 2"
    using c by (simp add: hslToHex_f_unit)
  ultimately show ?thesis using c Math_round_byte [of "hslToHex_color hue l1 a n"] by simp
qed

theorem C10_hslToHex_well_formed_witness:
  "isValidHex (hslToHex 239 84 67) \<and> length (hslToHex 239 84 67) = 7
   \<and> hd (hslToHex 239 84 67) = CHR ''#''"
  using C10_hslToHex_well_formed [of 239 84 67 "fl (67 / 100)"
      "fl (fl (84 / 100) * min (fl (67 / 100)) (fl (1 - fl (67 / 100))))" 0]
  by simp

text \<open>
  C4: the claim keeps the hue in \<open>[0, 360)\<close>. The rounded hue is not wrapped: for
  \<^verbatim>\<open>#ff0001\<close> the sector value is \<open>6 - 1 / 255\<close>, the hue before rounding is
  \<open>360 - 60 / 255\<close>, and the result is 360.
\<close>

theorem C4_hue_counterexample:
  "isValidHex ''#ff0001'' \<and> hexToHSL ''#ff0001'' = Inr \<lparr> h = 360, s = 100, l = 50 \<rparr>"
  using valid_ff0001 hexToHSL_ff0001 by simp

text \<open>
  C4, as amended: for every valid hex input the hue returned by \<open>hexToHSL\<close> lies in the
  closed interval \<open>[0, 360]\<close>. It is the local \<^verbatim>\<open>h\<close> (the sector value divided by 6),
  multiplied by 360 and rounded to the nearest integer, without wrapping: 360 is returned
  exactly when the hue before rounding is at least 359.5, as it is for \<^verbatim>\<open>#ff0001\<close>.
\<close>

theorem C4_hue_closed_interval:
  assumes "isValidHex hex"
  shows "(\<exists>R G B hsl. hexChannels hex = Some (R, G, B) \<and> hexToHSL hex = Inr hsl
       \<and> h hsl = of_int (Math_round (fl (hexToHSL_h
             (fl (real R / 255)) (fl (real G / 255)) (fl (real B / 255)) * 360)))
       \<and> 0 \<le> h hsl \<and> h hsl \<le> 360
       \<and> (h hsl = 360 \<longleftrightarrow>
            359.5 \<le> fl (hexToHSL_h (fl (real R / 255)) (fl (real G / 255)) (fl (real B / 255)) * 360)))
     \<and> (\<exists>hsl. hexToHSL ''#ff0001'' = Inr hsl \<and> h hsl = 360)"
proof -
  from assms obtain R G B where c: "hexChannels hex = Some (R, G, B)" "R \<le> 255" "G \<le> 255" "B \<le> 255"
    by (rule hexChannels_valid)
  from hexToHSL_hue_unwrapped [OF c] c(1) hexToHSL_ff0001 show ?thesis by auto
qed

theorem C4_hue_closed_interval_witness:
  "isValidHex ''#ff0001''
   \<and> (\<exists>hsl. hexToHSL ''#ff0001'' = Inr hsl \<and> 0 \<le> h hsl \<and> h hsl \<le> 360 \<and> h hsl = 360)"
  using valid_ff0001 C4_hue_closed_interval [OF valid_ff0001] by auto

text \<open>
  C3: for a valid primary, \<open>generateShadesFromPrimary\<close> returns five entries, and the
  lightness that \<open>hexToHSL\<close> computes for entry \<open>i\<close> is exactly \<open>[92, 78, 64, 50, 36] ! i\<close>.
\<close>

theorem C3_generateShades_lightness:
  assumes "isValidHex P"
  shows "\<exists>shades. generateShadesFromPrimary P = Inr shades \<and> length shades = 5
     \<and> (\<forall>i < 5. \<exists>hsl. hexToHSL (shades ! i) = Inr hsl \<and> l hsl = [92, 78, 64, 50, 36] ! i)"
proof -
  from assms obtain R G B where c: "hexChannels P = Some (R, G, B)" "R \<le> 255" "G \<le> 255" "B \<le> 255"
    by (rule hexChannels_valid)
  from c obtain p where p: "hexToHSL P = Inr p" "0 \<le> h p" "h p \<le> 360" "0 \<le> s p" "s p \<le> 100"
    by (rule hexToHSL_ranges)
  define shades where "shades = map (\<lambda>lig. hslToHex (h p) (s p) lig) lightnessLevels"
  have g: "generateShadesFromPrimary P = Inr shades"
    by (simp add: generateShadesFromPrimary_def p(1) shades_def)
  have len: "length shades = 5" by (simp add: shades_def lightnessLevels_def)
  have one: "\<exists>hsl. hexToHSL (hslToHex (h p) (s p) (of_int L)) = Inr hsl \<and> l hsl = of_int L"
    if "0 \<le> L" "L \<le> 100" for L :: int
    by (rule hslToHex_lightness [OF p(2-5) that])
  have "\<exists>hsl. hexToHSL (shades ! i) = Inr hsl \<and> l hsl = [92, 78, 64, 50, 36] ! i" if "i < 5" for i
  proof -
    from that consider "i = 0" | "i = 1" | "i = 2" | "i = 3" | "i = 4" by linarith
    then show ?thesis
    proof cases
      case 1
      then show ?thesis using one [of 92] by (simp add: shades_def lightnessLevels_def)
    next
      case 2
      then show ?thesis using one [of 78] by (simp add: shades_def lightnessLevels_def)
    next
      case 3
      then show ?thesis using one [of 64] by (simp add: shades_def lightnessLevels_def)
    next
      case 4
      then show ?thesis using one [of 50] by (simp add: shades_def lightnessLevels_def)
    next
      case 5
      then show ?thesis using one [of 36] by (simp add: shades_def lightnessLevels_def)
    qed
  qed
  with g len show ?thesis by blast
qed

theorem C3_generateShades_lightness_witness:
  "isValidHex ''#6366f1''
   \<and> (\<exists>shades. generateShadesFromPrimary ''#6366f1'' = Inr shades \<and> length shades = 5
     \<and> (\<forall>i < 5. \<exists>hsl. hexToHSL (shades ! i) = Inr hsl \<and> l hsl = [92, 78, 64, 50, 36] ! i))"
proof -
  have v: "isValidHex ''#6366f1''"
    by (simp add: isValidHex_def HEX_REGEX_exec_def hexDigit_def)
  show ?thesis using v C3_generateShades_lightness [OF v] by blast
qed

text \<open>
  C7: the claim bounds the change of every channel in a round trip through the rounded
  HSL triple by 1. For \<^verbatim>\<open>#02e4e6\<close>, with channels 2, 228 and 230, the triple is
  \<open>(181, 98, 45)\<close> and \<open>hslToHex\<close> gives \<^verbatim>\<open>#02dfe3\<close>, with channels 2, 223 and 227: the
  green channel moves by 5.
\<close>

theorem C7_roundtrip_counterexample:
  "isValidHex ''#02e4e6''
   \<and> hexToHSL ''#02e4e6'' = Inr \<lparr> h = 181, s = 98, l = 45 \<rparr>
   \<and> hslToHex 181 98 45 = ''#02dfe3''
   \<and> hexChannels ''#02e4e6'' = Some (2, 228, 230)
   \<and> hexChannels ''#02dfe3'' = Some (2, 223, 227)
   \<and> \<not> \<bar>int 223 - int 228\<bar> \<le> 1"
  using valid_02e4e6 hexToHSL_02e4e6 hslToHex_181_98_45 hexChannels_02e4e6 hexChannels_02dfe3
  by simp

text \<open>
  C7, as amended: for every valid primary \<open>P\<close>, converting \<open>P\<close> to its rounded HSL triple
  and back gives a colour whose three channels each differ from the corresponding channel
  of \<open>P\<close> by at most 5 (in 0 to 255 units).
\<close>

theorem C7_roundtrip_within_5:
  assumes "isValidHex P"
  shows "\<exists>hsl R G B R' G' B'. hexToHSL P = Inr hsl \<and> hexChannels P = Some (R, G, B)
     \<and> hexChannels (hslToHex (h hsl) (s hsl) (l hsl)) = Some (R', G', B')
     \<and> \<bar>int R' - int R\<bar> \<le> 5 \<and> \<bar>int G' - int G\<bar> \<le> 5 \<and> \<bar>int B' - int B\<bar> \<le> 5"
proof -
  from assms obtain R G B where c: "hexChannels P = Some (R, G, B)" "R \<le> 255" "G \<le> 255" "B \<le> 255"
    by (rule hexChannels_valid)
  from roundtrip_channels [OF c] c(1) show ?thesis by blast
qed

theorem C7_roundtrip_within_5_witness:
  "isValidHex ''#02e4e6''
   \<and> (\<exists>hsl R G B R' G' B'. hexToHSL ''#02e4e6'' = Inr hsl \<and> hexChannels ''#02e4e6'' = Some (R, G, B)
     \<and> hexChannels (hslToHex (h hsl) (s hsl) (l hsl)) = Some (R', G', B')
     \<and> \<bar>int R' - int R\<bar> \<le> 5 \<and> \<bar>int G' - int G\<bar> \<le> 5 \<and> \<bar>int B' - int B\<bar> \<le> 5)"
proof -
  have v: "isValidHex ''#02e4e6''"
    by (simp add: isValidHex_def HEX_REGEX_exec_def hexDigit_def)
  show ?thesis using v C7_roundtrip_within_5 [OF v] by blast
qed

end
